theory Spec2Isabelle
  imports Complex_Main "HOL-Library.Sublist"
begin

section \<open>Text: characters, whitespace, case\<close>

text \<open>
  The optimizer works on Python \<open>str\<close> values. A text is modelled as a \<open>string\<close> whose
  characters are the code points 0..255 (Latin-1); the character classes below are the
  ones Python's \<open>str.isspace\<close>, \<open>str.isalnum\<close> and \<open>str.lower\<close> have on that range, which
  are also the classes \<open>\s\<close> and \<open>\w\<close> of the \<open>re\<close> module on \<open>str\<close> patterns.
\<close>

definition isspace :: "char \<Rightarrow> bool" where
  "isspace c = (let n = (of_char c :: nat) in
     (9 \<le> n \<and> n \<le> 13) \<or> (28 \<le> n \<and> n \<le> 32) \<or> n = 133 \<or> n = 160)"

definition isalnum :: "char \<Rightarrow> bool" where
  "isalnum c = (let n = (of_char c :: nat) in
     (48 \<le> n \<and> n \<le> 57) \<or> (65 \<le> n \<and> n \<le> 90) \<or> (97 \<le> n \<and> n \<le> 122) \<or>
     n = 170 \<or> n = 178 \<or> n = 179 \<or> n = 181 \<or> n = 185 \<or> n = 186 \<or>
     (188 \<le> n \<and> n \<le> 190) \<or> (192 \<le> n \<and> n \<le> 214) \<or> (216 \<le> n \<and> n \<le> 246) \<or>
     248 \<le> n)"

definition isword :: "char \<Rightarrow> bool" where
  "isword c = (isalnum c \<or> c = CHR ''_'')"

definition lower_char :: "char \<Rightarrow> char" where
  "lower_char c = (let n = (of_char c :: nat) in
     if (65 \<le> n \<and> n \<le> 90) \<or> (192 \<le> n \<and> n \<le> 222 \<and> n \<noteq> 215)
     then char_of (n + 32) else c)"

definition lower :: "string \<Rightarrow> string" where
  "lower s = map lower_char s"

text \<open>\<open>str.strip()\<close>: whitespace removed at both ends.\<close>

definition strip :: "string \<Rightarrow> string" where
  "strip s = rev (dropWhile isspace (rev (dropWhile isspace s)))"

text \<open>\<open>sub in s\<close> on strings: \<open>sub\<close> occurs in \<open>s\<close> as a contiguous piece.\<close>

fun str_in :: "string \<Rightarrow> string \<Rightarrow> bool" where
  "str_in sub [] = (sub = [])"
| "str_in sub (x # xs) = (prefix sub (x # xs) \<or> str_in sub xs)"

text \<open>\<open>sep.join(parts)\<close>.\<close>

fun join :: "string \<Rightarrow> string list \<Rightarrow> string" where
  "join sep [] = []"
| "join sep [p] = p"
| "join sep (p # q # ps) = p @ sep @ join sep (q # ps)"

text \<open>\<open>str(n)\<close> for a non-negative integer.\<close>

definition digit_char :: "nat \<Rightarrow> char" where
  "digit_char d = char_of (48 + d)"

fun str_nat :: "nat \<Rightarrow> string" where
  "str_nat n = (if n < 10 then [digit_char n] else str_nat (n div 10) @ [digit_char (n mod 10)])"

declare str_nat.simps [simp del]

section \<open>Regular expressions as the \<open>re\<close> module matches them\<close>

text \<open>
  The patterns of the source use literals, the classes \<open>\s\<close>, \<open>\w\<close>, \<open>.\<close> (under DOTALL)
  and bracket sets, sequencing, alternation, optional groups, the greedy repetitions \<open>*\<close>
  and \<open>+\<close> and the lazy \<open>*?\<close> of a single character class, \<open>^\<close> under MULTILINE, \<open>$\<close>
  without MULTILINE, a lookahead and capturing groups.
\<close>

datatype cset =
    CChar char          \<comment> \<open>one literal character\<close>
  | CSpace              \<comment> \<open>\<open>\s\<close>\<close>
  | CWord               \<comment> \<open>\<open>\w\<close>\<close>
  | CAny                \<comment> \<open>\<open>.\<close> with DOTALL\<close>
  | COneOf string       \<comment> \<open>\<open>[...]\<close> of literal characters\<close>
  | CNoneOf string      \<comment> \<open>\<open>[^...]\<close> of literal characters\<close>

datatype regex =
    Lit string          \<comment> \<open>a literal string\<close>
  | Atom cset           \<comment> \<open>one character of a class\<close>
  | Seq regex regex
  | Alt regex regex     \<comment> \<open>\<open>r1|r2\<close>, the left alternative tried first\<close>
  | Opt regex           \<comment> \<open>\<open>r?\<close>, greedy\<close>
  | Star cset           \<comment> \<open>\<open>c*\<close>, greedy\<close>
  | Plus cset           \<comment> \<open>\<open>c+\<close>, greedy\<close>
  | LazyStar cset       \<comment> \<open>\<open>c*?\<close>\<close>
  | Bol                 \<comment> \<open>\<open>^\<close> with MULTILINE\<close>
  | Eot                 \<comment> \<open>\<open>$\<close> without MULTILINE\<close>
  | Look regex          \<comment> \<open>\<open>(?=r)\<close>\<close>
  | Grp nat regex       \<comment> \<open>capturing group number n\<close>

text \<open>With IGNORECASE (\<open>ic\<close>) a literal character matches in either case.\<close>

fun in_cset :: "bool \<Rightarrow> cset \<Rightarrow> char \<Rightarrow> bool" where
  "in_cset ic (CChar c) x = (if ic then lower_char x = lower_char c else x = c)"
| "in_cset ic CSpace x = isspace x"
| "in_cset ic CWord x = isword x"
| "in_cset ic CAny x = True"
| "in_cset ic (COneOf cs) x = (if ic then lower_char x \<in> set (lower cs) else x \<in> set cs)"
| "in_cset ic (CNoneOf cs) x = (if ic then lower_char x \<notin> set (lower cs) else x \<notin> set cs)"

definition lit_match :: "bool \<Rightarrow> string \<Rightarrow> string \<Rightarrow> bool" where
  "lit_match ic w a = (if ic then prefix (lower w) (lower a) else prefix w a)"

text \<open>
  A position of the matcher: the text already passed (reversed, so its head is the
  character just before the position), the text still ahead, and the groups captured so
  far. \<open>ms r st\<close> lists every position at which a match of \<open>r\<close> started at \<open>st\<close> can end,
  in the order in which the backtracking matcher tries them; the match the \<open>re\<close> module
  reports is the first one.
\<close>

type_synonym mstate = "string \<times> string \<times> (nat \<rightharpoonup> string)"

fun step :: "bool \<Rightarrow> cset \<Rightarrow> mstate \<Rightarrow> mstate list" where
  "step ic cs (b, [], g) = []"
| "step ic cs (b, x # a, g) = (if in_cset ic cs x then [(x # b, a, g)] else [])"

fun star :: "bool \<Rightarrow> cset \<Rightarrow> mstate \<Rightarrow> mstate list" where
  "star ic cs (b, [], g) = [(b, [], g)]"
| "star ic cs (b, x # a, g) =
     (if in_cset ic cs x then star ic cs (x # b, a, g) @ [(b, x # a, g)] else [(b, x # a, g)])"

fun lazy_star :: "bool \<Rightarrow> cset \<Rightarrow> mstate \<Rightarrow> mstate list" where
  "lazy_star ic cs (b, [], g) = [(b, [], g)]"
| "lazy_star ic cs (b, x # a, g) =
     (b, x # a, g) # (if in_cset ic cs x then lazy_star ic cs (x # b, a, g) else [])"

fun close_group :: "nat \<Rightarrow> string \<Rightarrow> mstate \<Rightarrow> mstate" where
  "close_group n b (b', a', g') = (b', a', g'(n \<mapsto> rev (take (length b' - length b) b')))"

fun ms :: "bool \<Rightarrow> regex \<Rightarrow> mstate \<Rightarrow> mstate list" where
  "ms ic (Lit w) (b, a, g) =
     (if lit_match ic w a then [(rev (take (length w) a) @ b, drop (length w) a, g)] else [])"
| "ms ic (Atom cs) st = step ic cs st"
| "ms ic (Seq r1 r2) st = concat (map (ms ic r2) (ms ic r1 st))"
| "ms ic (Alt r1 r2) st = ms ic r1 st @ ms ic r2 st"
| "ms ic (Opt r) st = ms ic r st @ [st]"
| "ms ic (Star cs) st = star ic cs st"
| "ms ic (Plus cs) st = concat (map (star ic cs) (step ic cs st))"
| "ms ic (LazyStar cs) st = lazy_star ic cs st"
| "ms ic Bol (b, a, g) = (if b = [] \<or> hd b = CHR 0x0A then [(b, a, g)] else [])"
| "ms ic Eot (b, a, g) = (if a = [] \<or> a = [CHR 0x0A] then [(b, a, g)] else [])"
| "ms ic (Look r) st = (if ms ic r st = [] then [] else [st])"
| "ms ic (Grp n r) (b, a, g) = map (close_group n b) (ms ic r (b, a, g))"

text \<open>
  \<open>re.search\<close>: the first match at the leftmost position that has one. The result is
  the text before the match (reversed) and the position where the match ends.
\<close>

fun search_from :: "bool \<Rightarrow> regex \<Rightarrow> string \<Rightarrow> string \<Rightarrow> (string \<times> mstate) option" where
  "search_from ic r b [] =
     (case ms ic r (b, [], Map.empty) of [] \<Rightarrow> None | st # _ \<Rightarrow> Some (b, st))"
| "search_from ic r b (x # a) =
     (case ms ic r (b, x # a, Map.empty) of
        [] \<Rightarrow> search_from ic r (x # b) a
      | st # _ \<Rightarrow> Some (b, st))"

definition re_search :: "bool \<Rightarrow> regex \<Rightarrow> string \<Rightarrow> (string \<times> mstate) option" where
  "re_search ic r s = search_from ic r [] s"

text \<open>\<open>bool(re.search(...))\<close>.\<close>

definition re_found :: "bool \<Rightarrow> regex \<Rightarrow> string \<Rightarrow> bool" where
  "re_found ic r s = (re_search ic r s \<noteq> None)"

text \<open>\<open>m.group(0)\<close> and \<open>m.group(n)\<close> of a match object.\<close>

fun group0 :: "string \<times> mstate \<Rightarrow> string" where
  "group0 (b, (b', a', g)) = rev (take (length b' - length b) b')"

fun group :: "nat \<Rightarrow> string \<times> mstate \<Rightarrow> string option" where
  "group n (b, (b', a', g)) = g n"

text \<open>Sequences and alternations of several parts, nested to the right.\<close>

fun seqs :: "regex list \<Rightarrow> regex" where
  "seqs [] = Lit []"
| "seqs [r] = r"
| "seqs (r # rs) = Seq r (seqs rs)"

fun alts :: "regex list \<Rightarrow> regex" where
  "alts [] = Lit []"
| "alts [r] = r"
| "alts (r # rs) = Alt r (alts rs)"

section \<open>Scoring functions (skill\_metrics.py)\<close>

record prediction =
  code_output :: "string option"   \<comment> \<open>\<open>None\<close>: the attribute is not set\<close>
  doc_output :: "string option"
  reasoning :: string

text \<open>
  The float subclass \<open>Score\<close> with its \<open>feedback\<close> attribute. Scores are modelled as
  exact fractions: the partial scores are 0.0, 0.3, 0.5 and 1.0, and on every
  combination of four of them the float mean of the source is the double nearest to
  the exact mean.
\<close>

record score_result =
  score :: real
  feedback :: string

text \<open>\<open>getattr(prediction, 'code_output', '')\<close>.\<close>

definition get_code_output :: "prediction \<Rightarrow> string" where
  "get_code_output p = (case code_output p of None \<Rightarrow> [] | Some c \<Rightarrow> c)"

text \<open>\<open>not code or not code.strip()\<close>.\<close>

definition no_content :: "string \<Rightarrow> bool" where
  "no_content code = (code = [] \<or> strip code = [])"

text \<open>
  The glyphs of the feedback lines (U+2713, U+25B3, U+2717) lie outside the modelled
  character range; they stand in the feedback text as their UTF-8 bytes.
\<close>

definition glyph_ok :: string where
  "glyph_ok = [CHR 0xE2, CHR 0x9C, CHR 0x93]"

definition glyph_soft :: string where
  "glyph_soft = [CHR 0xE2, CHR 0x96, CHR 0xB3]"

definition glyph_miss :: string where
  "glyph_miss = [CHR 0xE2, CHR 0x9C, CHR 0x97]"

text \<open>\<open>sum(checks) / len(checks) if checks else 0.0\<close>.\<close>

definition mean_score :: "real list \<Rightarrow> real" where
  "mean_score checks = (if checks \<noteq> [] then sum_list checks / real (length checks) else 0)"

subsection \<open>TypeScriptMetric\<close>

definition ts_keywords :: "string list" where
  "ts_keywords = [''interface'', ''type'', ''export'', ''import'', ''async'', ''await'', ''Promise'']"

text \<open>\<open>sum(1 for kw in ts_keywords if kw in code)\<close>.\<close>

definition ts_keyword_count :: "string \<Rightarrow> nat" where
  "ts_keyword_count code = length (filter (\<lambda>kw. str_in kw code) ts_keywords)"

definition has_ts_syntax :: "string \<Rightarrow> bool" where
  "has_ts_syntax code = (ts_keyword_count code \<ge> 2)"

text \<open>\<^verbatim>\<open>(function\s+\w+|const\s+\w+\s*=\s*async?\s*\(|class\s+\w+)\<close>\<close>

definition re_functions :: regex where
  "re_functions = Grp 1 (alts [
     seqs [Lit ''function'', Plus CSpace, Plus CWord],
     seqs [Lit ''const'', Plus CSpace, Plus CWord, Star CSpace, Lit ''='', Star CSpace,
           Lit ''asyn'', Opt (Lit ''c''), Star CSpace, Lit ''(''],
     seqs [Lit ''class'', Plus CSpace, Plus CWord]])"

definition has_functions :: "string \<Rightarrow> bool" where
  "has_functions code = re_found False re_functions code"

text \<open>\<^verbatim>\<open>(try\s*\{|catch\s*\(|Error|throw\s+new)\<close>\<close>

definition re_error_handling :: regex where
  "re_error_handling = Grp 1 (alts [
     seqs [Lit ''try'', Star CSpace, Lit ''{''],
     seqs [Lit ''catch'', Star CSpace, Lit ''(''],
     Lit ''Error'',
     seqs [Lit ''throw'', Plus CSpace, Lit ''new'']])"

definition has_error_handling :: "string \<Rightarrow> bool" where
  "has_error_handling code = re_found False re_error_handling code"

text \<open>\<^verbatim>\<open>export\s+(default\s+)?(function|const|class|interface|type)\<close>\<close>

definition re_exports :: regex where
  "re_exports = seqs [Lit ''export'', Plus CSpace,
     Opt (Grp 1 (seqs [Lit ''default'', Plus CSpace])),
     Grp 2 (alts [Lit ''function'', Lit ''const'', Lit ''class'', Lit ''interface'', Lit ''type''])]"

definition has_exports :: "string \<Rightarrow> bool" where
  "has_exports code = re_found False re_exports code"

definition TypeScriptMetric_checks :: "string \<Rightarrow> real list" where
  "TypeScriptMetric_checks code =
     [if has_ts_syntax code then 1.0 else 0.3,
      if has_functions code then 1.0 else 0.0,
      if has_error_handling code then 1.0 else 0.5,
      if has_exports code then 1.0 else 0.5]"

definition TypeScriptMetric_feedback :: "string \<Rightarrow> string list" where
  "TypeScriptMetric_feedback code =
     [(if has_ts_syntax code then glyph_ok else glyph_soft) @ '' TypeScript keywords: ''
        @ str_nat (ts_keyword_count code),
      (if has_functions code then glyph_ok else glyph_miss) @ '' Functions/classes found'',
      (if has_error_handling code then glyph_ok else glyph_soft) @ '' Error handling: ''
        @ (if has_error_handling code then ''found'' else ''missing''),
      (if has_exports code then glyph_ok else glyph_soft) @ '' Exports: ''
        @ (if has_exports code then ''found'' else ''missing'')]"

definition TypeScriptMetric_call :: "prediction \<Rightarrow> score_result" where
  "TypeScriptMetric_call p =
     (let code = get_code_output p in
      if no_content code then \<lparr>score = 0.0, feedback = ''No content generated''\<rparr>
      else \<lparr>score = mean_score (TypeScriptMetric_checks code),
            feedback = join [CHR 0x0A] (TypeScriptMetric_feedback code)\<rparr>)"

subsection \<open>TestDocMetric\<close>

text \<open>\<^verbatim>\<open>(describe\s*\(|it\s*\(|test\s*\(|Given|When|Then|beforeEach|afterEach)\<close>, IGNORECASE\<close>

definition re_test_structure :: regex where
  "re_test_structure = Grp 1 (alts [
     seqs [Lit ''describe'', Star CSpace, Lit ''(''],
     seqs [Lit ''it'', Star CSpace, Lit ''(''],
     seqs [Lit ''test'', Star CSpace, Lit ''(''],
     Lit ''Given'', Lit ''When'', Lit ''Then'', Lit ''beforeEach'', Lit ''afterEach''])"

definition has_test_structure :: "string \<Rightarrow> bool" where
  "has_test_structure code = re_found True re_test_structure code"

definition test_keywords :: "string list" where
  "test_keywords = [''test'', ''verify'', ''check'', ''assert'', ''expect'', ''mock'',
     ''fixture'', ''coverage'', ''edge case'', ''error'', ''should'']"

text \<open>\<open>sum(1 for kw in test_keywords if kw.lower() in code.lower())\<close>.\<close>

definition test_keyword_count :: "string \<Rightarrow> nat" where
  "test_keyword_count code =
     length (filter (\<lambda>kw. str_in (lower kw) (lower code)) test_keywords)"

definition has_test_content :: "string \<Rightarrow> bool" where
  "has_test_content code = (test_keyword_count code \<ge> 3)"

text \<open>\<^verbatim>\<open>^#+\s+\w\<close>, MULTILINE\<close>

definition re_headers :: regex where
  "re_headers = seqs [Bol, Plus (CChar CHR ''#''), Plus CSpace, Atom CWord]"

definition has_headers :: "string \<Rightarrow> bool" where
  "has_headers code = re_found False re_headers code"

text \<open>\<^verbatim>\<open>(^[\s]*[-*]\s+\w|```)\<close>, MULTILINE\<close>

definition re_structure :: regex where
  "re_structure = Grp 1 (alts [
     seqs [Bol, Star CSpace, Atom (COneOf ''-*''), Plus CSpace, Atom CWord],
     Lit ''```''])"

definition has_structure :: "string \<Rightarrow> bool" where
  "has_structure code = re_found False re_structure code"

definition TestDocMetric_checks :: "string \<Rightarrow> real list" where
  "TestDocMetric_checks code =
     [if has_test_structure code then 1.0 else 0.0,
      if has_test_content code then 1.0 else 0.5,
      if has_headers code then 1.0 else 0.5,
      if has_structure code then 1.0 else 0.5]"

definition TestDocMetric_feedback :: "string \<Rightarrow> string list" where
  "TestDocMetric_feedback code =
     [(if has_test_structure code then glyph_ok else glyph_miss) @ '' Test structure found'',
      (if has_test_content code then glyph_ok else glyph_soft) @ '' Test keywords: ''
        @ str_nat (test_keyword_count code),
      (if has_headers code then glyph_ok else glyph_soft) @ '' Headers: ''
        @ (if has_headers code then ''found'' else ''none''),
      (if has_structure code then glyph_ok else glyph_soft) @ '' Lists/code blocks: ''
        @ (if has_structure code then ''found'' else ''none'')]"

definition TestDocMetric_call :: "prediction \<Rightarrow> score_result" where
  "TestDocMetric_call p =
     (let code = get_code_output p in
      if no_content code then \<lparr>score = 0.0, feedback = ''No content generated''\<rparr>
      else \<lparr>score = mean_score (TestDocMetric_checks code),
            feedback = join [CHR 0x0A] (TestDocMetric_feedback code)\<rparr>)"

section \<open>Model adapters (skill\_adapters.py)\<close>

text \<open>
  The external process is a parameter. A call either raises an exception (a subclass of
  \<open>Exception\<close>: \<open>TimeoutExpired\<close> when the timeout passes, \<open>FileNotFoundError\<close> for a
  binary that does not exist, or any other) or completes with the text of its standard
  output; each exception carries the text \<open>str(e)\<close> gives.
\<close>

datatype py_exception =
    TimeoutExpired string
  | FileNotFoundError string
  | OtherException string

fun exc_str :: "py_exception \<Rightarrow> string" where
  "exc_str (TimeoutExpired m) = m"
| "exc_str (FileNotFoundError m) = m"
| "exc_str (OtherException m) = m"

text \<open>\<open>subprocess.run(args, cwd=..., capture_output=True, text=True, timeout=...)\<close>.\<close>

type_synonym subprocess_run = "string list \<Rightarrow> string \<Rightarrow> nat \<Rightarrow> py_exception + string"

record adapter =
  gemini_binary :: string
  repo_root :: string
  timeout_seconds :: nat
  instructions :: string       \<comment> \<open>\<open>predictor.signature.instructions\<close>\<close>
  demos :: "string list"

text \<open>
  \<open>re.findall\<close>: the matches from left to right, each search starting where the match
  before it ended. (After an empty match the scan moves on by one character; no pattern
  of the source matches the empty string.)
\<close>

function findall_from :: "bool \<Rightarrow> regex \<Rightarrow> string \<Rightarrow> string \<Rightarrow> (string \<times> mstate) list" where
  "findall_from ic r b a =
     (case ms ic r (b, a, Map.empty) of
        [] \<Rightarrow> (case a of [] \<Rightarrow> [] | x # xs \<Rightarrow> findall_from ic r (x # b) xs)
      | (b', a', g) # _ \<Rightarrow>
          (b, (b', a', g)) #
          (if length a' < length a then findall_from ic r b' a'
           else (case a of [] \<Rightarrow> [] | x # xs \<Rightarrow> findall_from ic r (x # b) xs)))"
  by pat_completeness auto
termination
  by (relation "measure (\<lambda>(ic, r, b, a). length a)") auto

declare findall_from.simps [simp del]

text \<open>With one group in the pattern, \<open>re.findall\<close> returns the text of that group.\<close>

definition re_findall :: "bool \<Rightarrow> regex \<Rightarrow> string \<Rightarrow> string list" where
  "re_findall ic r s =
     map (\<lambda>m. case group 1 m of None \<Rightarrow> [] | Some t \<Rightarrow> t) (findall_from ic r [] s)"

text \<open>\<^verbatim>\<open>```(?:typescript|ts|javascript|js)?\n(.*?)```\<close>, DOTALL\<close>

definition re_code_blocks :: regex where
  "re_code_blocks = seqs [Lit ''```'',
     Opt (alts [Lit ''typescript'', Lit ''ts'', Lit ''javascript'', Lit ''js'']),
     Lit ''\<newline>'', Grp 1 (LazyStar CAny), Lit ''```'']"

definition extract_code :: "string \<Rightarrow> string" where
  "extract_code stdout =
     (let code_blocks = re_findall False re_code_blocks stdout in
      if code_blocks \<noteq> [] then join ''\<newline>\<newline>'' code_blocks else stdout)"

text \<open>\<^verbatim>\<open>## Reasoning\n(.*?)(?=##|$)\<close>, DOTALL\<close>

definition re_reasoning :: regex where
  "re_reasoning = seqs [Lit ''## Reasoning\<newline>'', Grp 1 (LazyStar CAny),
     Look (alts [Lit ''##'', Eot])]"

definition extract_reasoning :: "string \<Rightarrow> string" where
  "extract_reasoning stdout =
     (case re_search False re_reasoning stdout of
        None \<Rightarrow> []
      | Some m \<Rightarrow> strip (case group 1 m of None \<Rightarrow> [] | Some t \<Rightarrow> t))"

definition demos_text :: "string list \<Rightarrow> string" where
  "demos_text ds =
     (if ds \<noteq> [] then ''\<newline>\<newline># Golden Examples\<newline>'' @ join ''\<newline>---\<newline>'' (take 2 ds)
      else [])"

definition ts_prepare_prompt :: "adapter \<Rightarrow> string \<Rightarrow> string \<Rightarrow> string" where
  "ts_prepare_prompt a story_context tech_stack =
     ''# Instructions\<newline>'' @ instructions a @
     ''\<newline>\<newline># Technology Stack\<newline>'' @ tech_stack @ ''\<newline>'' @ demos_text (demos a) @
     ''\<newline>\<newline># Task\<newline>'' @ story_context @
     ''\<newline>\<newline># Expected Output\<newline>TypeScript code implementing the requirements:\<newline>'' @
     ''- Proper interfaces and types\<newline>- Error handling with typed errors\<newline>'' @
     ''- Jest test stubs where appropriate\<newline>- JSDoc comments for public APIs\<newline>''"

definition doc_prepare_prompt :: "adapter \<Rightarrow> string \<Rightarrow> string" where
  "doc_prepare_prompt a story_context =
     ''# Instructions\<newline>'' @ instructions a @ ''\<newline>'' @ demos_text (demos a) @
     ''\<newline>\<newline># Task\<newline>'' @ story_context @
     ''\<newline>\<newline># Expected Output\<newline>Test documentation with:\<newline>'' @
     ''- Test suite structure (describe/it blocks)\<newline>- Given/When/Then format for test cases\<newline>'' @
     ''- Coverage targets and edge cases\<newline>- Jest test examples where appropriate\<newline>''"

text \<open>
  \<open>forward\<close> of the two adapters. The result is a sum so that an exception leaving
  \<open>forward\<close> would be the value \<open>Inl\<close>; the \<open>except Exception\<close> clause turns every
  exception of the call into a prediction. (The rollout identifier the TypeScript
  adapter draws first is never used and is left out.)
\<close>

definition TypeScriptCodeAdapter_forward ::
    "subprocess_run \<Rightarrow> adapter \<Rightarrow> string \<Rightarrow> string \<Rightarrow> py_exception + prediction" where
  "TypeScriptCodeAdapter_forward run a story_context tech_stack =
     (let prompt = ts_prepare_prompt a story_context tech_stack in
      case run [gemini_binary a, ''-p'', prompt] (repo_root a) (timeout_seconds a) of
        Inr stdout \<Rightarrow>
          Inr \<lparr>code_output = Some (extract_code stdout), doc_output = None,
               reasoning = extract_reasoning stdout\<rparr>
      | Inl e \<Rightarrow>
          Inr \<lparr>code_output = Some [], doc_output = None,
               reasoning = ''Error: '' @ exc_str e\<rparr>)"

definition TestDocAdapter_forward ::
    "subprocess_run \<Rightarrow> adapter \<Rightarrow> string \<Rightarrow> string \<Rightarrow> py_exception + prediction" where
  "TestDocAdapter_forward run a story_context tech_stack =
     (let prompt = doc_prepare_prompt a story_context in
      case run [gemini_binary a, ''-p'', prompt] (repo_root a) (timeout_seconds a) of
        Inr stdout \<Rightarrow>
          Inr \<lparr>code_output = Some stdout, doc_output = Some stdout,
               reasoning = extract_reasoning stdout\<rparr>
      | Inl e \<Rightarrow>
          Inr \<lparr>code_output = Some [], doc_output = Some [],
               reasoning = ''Error: '' @ exc_str e\<rparr>)"

section \<open>Reflection model and evolution driver (optimize.py)\<close>

subsection \<open>json.dumps\<close>

text \<open>
  \<open>json.dumps\<close> of a string (with the default \<open>ensure_ascii\<close>): the quote and the
  backslash are escaped, the control characters and everything outside the printable
  ASCII range are written as escapes.
\<close>

definition hex_digit :: "nat \<Rightarrow> char" where
  "hex_digit d = (if d < 10 then char_of (48 + d) else char_of (87 + d))"

definition json_escape_char :: "char \<Rightarrow> string" where
  "json_escape_char c =
     (if c = CHR 0x22 then [CHR 0x5C, CHR 0x22]
      else if c = CHR 0x5C then [CHR 0x5C, CHR 0x5C]
      else if c = CHR 0x0A then [CHR 0x5C, CHR ''n'']
      else if c = CHR 0x0D then [CHR 0x5C, CHR ''r'']
      else if c = CHR 0x09 then [CHR 0x5C, CHR ''t'']
      else if c = CHR 0x0C then [CHR 0x5C, CHR ''f'']
      else if c = CHR 0x08 then [CHR 0x5C, CHR ''b'']
      else if (of_char c :: nat) < 32 \<or> (of_char c :: nat) > 126
        then [CHR 0x5C, CHR ''u'', CHR ''0'', CHR ''0'',
              hex_digit (of_char c div 16), hex_digit (of_char c mod 16)]
      else [c])"

definition json_string :: "string \<Rightarrow> string" where
  "json_string s = [CHR 0x22] @ concat (map json_escape_char s) @ [CHR 0x22]"

text \<open>
  \<open>json.dumps({"proposed_instruction": instr, "proposed_prefix_for_output_field": ""})\<close>
\<close>

definition dumps_proposal :: "string \<Rightarrow> string" where
  "dumps_proposal instr =
     ''{\"proposed_instruction\": '' @ json_string instr @
     '', \"proposed_prefix_for_output_field\": \"\"}''"

subsection \<open>CLIReflectionLM\<close>

text \<open>
  \<open>subprocess.Popen(cli_args, ...)\<close> followed by \<open>communicate(timeout=...)\<close>: an exception,
  or the texts of standard output and standard error.
\<close>

type_synonym popen_communicate = "string list \<Rightarrow> nat \<Rightarrow> py_exception + (string \<times> string)"

record cli_lm =
  binary_path :: string
  timeout :: nat

text \<open>\<^verbatim>\<open>\{[^{}]*"proposed_instruction"[^{}]*\}\<close>, DOTALL\<close>

definition re_json :: regex where
  "re_json = seqs [Lit ''{'', Star (CNoneOf ''{}''), Lit ''\"proposed_instruction\"'',
     Star (CNoneOf ''{}''), Lit ''}'']"

definition is_copro_request :: "string \<Rightarrow> bool" where
  "is_copro_request prompt_str =
     (str_in ''proposed_instruction'' (lower prompt_str) \<or> str_in ''instruction'' (lower prompt_str))"

definition json_guidance :: string where
  "json_guidance =
     ''\<newline>\<newline>IMPORTANT: You MUST respond with valid JSON containing these fields:\<newline>'' @
     ''{\<newline>  \"proposed_instruction\": \"Your improved instruction text here\",\<newline>'' @
     ''  \"proposed_prefix_for_output_field\": \"\"\<newline>}\<newline>'' @
     ''Only output the JSON object, nothing else.''"

text \<open>
  \<open>forward\<close>, in the order of the source. \<open>prompt\<close> is \<open>None\<close> when no prompt is
  passed; \<open>messages\<close> is \<open>None\<close> when the argument is missing or empty and otherwise
  holds the text \<open>str\<close> gives for the last message; \<open>model_env\<close> is the environment
  variable \<open>GEMINI_MODEL\<close>.
\<close>

definition prompt_str_of :: "string option \<Rightarrow> string option \<Rightarrow> string" where
  "prompt_str_of prompt messages =
     (let prompt_str = (case prompt of None \<Rightarrow> [] | Some p \<Rightarrow> p) in
      if prompt_str = [] \<and> messages \<noteq> None then the messages else prompt_str)"

definition cli_args :: "cli_lm \<Rightarrow> string option \<Rightarrow> string \<Rightarrow> string list" where
  "cli_args lm model_env prompt_str =
     (let enhanced_prompt =
            (if is_copro_request prompt_str then prompt_str @ json_guidance else prompt_str)
      in [binary_path lm, ''-p'', enhanced_prompt] @
         (case model_env of None \<Rightarrow> [] | Some m \<Rightarrow> if m \<noteq> [] then [''--model'', m] else []))"

text \<open>The content returned for the standard output of a call that completed.\<close>

definition response_content :: "bool \<Rightarrow> string \<Rightarrow> string" where
  "response_content copro stdout =
     (let content = strip stdout;
          content1 =
            (if content \<noteq> [] then
               (case re_search False re_json content of
                  Some m \<Rightarrow> group0 m
                | None \<Rightarrow>
                    if copro then
                      dumps_proposal (if content \<noteq> [] then take 2000 content
                                      else ''Follow the task requirements.'')
                    else content)
             else content)
      in if content1 = [] then dumps_proposal ''Follow the task requirements carefully.''
         else content1)"

text \<open>
  The result is the returned list; the \<open>except Exception\<close> clause also returns one, so no
  exception of the call leaves \<open>forward\<close>.
\<close>

definition CLIReflectionLM_forward ::
    "popen_communicate \<Rightarrow> string option \<Rightarrow> cli_lm \<Rightarrow> string option \<Rightarrow> string option
      \<Rightarrow> string list" where
  "CLIReflectionLM_forward popen model_env lm prompt messages =
     (let prompt_str = prompt_str_of prompt messages in
      case popen (cli_args lm model_env prompt_str) (timeout lm) of
        Inl e \<Rightarrow> [dumps_proposal ''Follow the task requirements.'']
      | Inr (stdout, stderr) \<Rightarrow> [response_content (is_copro_request prompt_str) stdout])"

subsection \<open>Persistence and the summary\<close>

text \<open>
  \<open>str.splitlines(keepends=True)\<close>, on the modelled character range: a line ends after
  \<open>\n\<close>, \<open>\r\<close>, \<open>\r\n\<close>, \<open>\v\<close>, \<open>\f\<close>, the separators 0x1C..0x1E or 0x85.
\<close>

definition is_linebreak :: "char \<Rightarrow> bool" where
  "is_linebreak c = (let n = (of_char c :: nat) in
     (10 \<le> n \<and> n \<le> 13) \<or> (28 \<le> n \<and> n \<le> 30) \<or> n = 133)"

fun splitlines_from :: "string \<Rightarrow> string \<Rightarrow> string list" where
  "splitlines_from cur [] = (if cur = [] then [] else [rev cur])"
| "splitlines_from cur [x] = [rev (x # cur)]"
| "splitlines_from cur (x # y # xs) =
     (if x = CHR 0x0D \<and> y = CHR 0x0A then rev (y # x # cur) # splitlines_from [] xs
      else if is_linebreak x then rev (x # cur) # splitlines_from [] (y # xs)
      else splitlines_from (x # cur) (y # xs))"

definition splitlines :: "string \<Rightarrow> string list" where
  "splitlines s = splitlines_from [] s"

text \<open>
  The effect on the file system is the list of the writes \<open>write_text\<close> performs, in
  order, each a path with the text written. \<open>difflib.unified_diff\<close> is a parameter.
\<close>

type_synonym file_write = "string \<times> string"

definition save_optimized_skill ::
    "(string list \<Rightarrow> string list \<Rightarrow> string list) \<Rightarrow> string \<Rightarrow> string \<Rightarrow> string \<Rightarrow> string \<Rightarrow> string
      \<Rightarrow> file_write list" where
  "save_optimized_skill unified_diff instruction baseline_instruction skill_dir output_dir timestamp =
     (let target_path = skill_dir @ ''/adapter.md'';
          version_file = output_dir @ ''/skill_versions/adapter_md_'' @ timestamp @ ''.md'';
          diff = unified_diff (splitlines baseline_instruction) (splitlines instruction)
      in [(target_path, instruction), (version_file, instruction)] @
         (if diff \<noteq> [] then [(skill_dir @ ''/diffs/run_'' @ timestamp @ ''.diff'', concat diff)]
          else []))"

record summary =
  skill :: string
  category :: string
  optimizer :: string
  baseline_chars :: nat
  optimized_chars :: nat
  changed :: bool
  timestamp :: string

text \<open>
  \<open>run_optimization\<close> from the point where \<open>optimizer.compile\<close> returns: \<open>compiled\<close> is
  the exception it raised or the instruction installed on the optimized adapter. An
  exception is raised again (\<open>Inl\<close>); otherwise the summary is returned together with
  the writes performed. \<open>dumps\<close> is \<open>json.dumps(summary, indent=2)\<close>.
\<close>

definition run_optimization ::
    "(string list \<Rightarrow> string list \<Rightarrow> string list) \<Rightarrow> (summary \<Rightarrow> string) \<Rightarrow>
      string \<Rightarrow> string \<Rightarrow> string \<Rightarrow> string \<Rightarrow> string \<Rightarrow> string \<Rightarrow> py_exception + string
      \<Rightarrow> py_exception + (summary \<times> file_write list)" where
  "run_optimization unified_diff dumps skill_name categ skill_dir output_dir tstamp
       baseline_content compiled =
     (case compiled of
        Inl e \<Rightarrow> Inl e
      | Inr final_instruction \<Rightarrow>
          (let saved =
                 (if final_instruction \<noteq> baseline_content
                  then save_optimized_skill unified_diff final_instruction baseline_content
                         skill_dir output_dir tstamp
                  else []);
               results_path = output_dir @ ''/optimization_'' @ skill_name @ ''_'' @ tstamp @ ''.json'';
               summ = \<lparr>skill = skill_name, category = categ, optimizer = ''COPRO'',
                        baseline_chars = length baseline_content,
                        optimized_chars = length final_instruction,
                        changed = (final_instruction \<noteq> baseline_content),
                        timestamp = tstamp\<rparr>
           in Inr (summ, saved @ [(results_path, dumps summ)])))"

section \<open>The post-processing of the adapters, stated without patterns\<close>

text \<open>
  The text before the first occurrence of \<open>w\<close> (the whole text when \<open>w\<close> does not
  occur), and the text after it (when it occurs).
\<close>

fun before_first :: "string \<Rightarrow> string \<Rightarrow> string" where
  "before_first w [] = []"
| "before_first w (x # xs) = (if prefix w (x # xs) then [] else x # before_first w xs)"

fun after_first :: "string \<Rightarrow> string \<Rightarrow> string option" where
  "after_first w [] = (if w = [] then Some [] else None)"
| "after_first w (x # xs) =
     (if prefix w (x # xs) then Some (drop (length w) (x # xs)) else after_first w xs)"

text \<open>
  An opening fence: three backticks, optionally one of the four language tags, and a
  newline. \<open>open_fence a\<close> is the text after an opening fence at the start of \<open>a\<close>.
\<close>

definition fence_tags :: "string list" where
  "fence_tags = [''typescript'', ''ts'', ''javascript'', ''js'', []]"

definition open_fence :: "string \<Rightarrow> string option" where
  "open_fence a =
     (case filter (\<lambda>tag. prefix (''```'' @ tag @ ''\<newline>'') a) fence_tags of
        [] \<Rightarrow> None
      | tag # _ \<Rightarrow> Some (drop (length tag + 4) a))"

text \<open>
  The contents of the fenced blocks, from left to right: a block starts at the first
  opening fence that has three backticks somewhere after it, its content runs up to the
  first such three backticks, and the next block is looked for after them.
\<close>

function fenced_blocks_spec :: "string \<Rightarrow> string list" where
  "fenced_blocks_spec [] = []"
| "fenced_blocks_spec (x # xs) =
     (case open_fence (x # xs) of
        None \<Rightarrow> fenced_blocks_spec xs
      | Some t \<Rightarrow>
          (case after_first ''```'' t of
             None \<Rightarrow> fenced_blocks_spec xs
           | Some rest \<Rightarrow> before_first ''```'' t # fenced_blocks_spec rest))"
  by pat_completeness auto
termination
proof (relation "measure length")
  show "wf (measure length)" by simp
next
  fix x :: char and xs :: string
  show "(xs, x # xs) \<in> measure length" by simp
  then show "(xs, x # xs) \<in> measure length" .
next
  fix x :: char and xs t rest :: string
  assume o: "open_fence (x # xs) = Some t" and a: "after_first ''```'' t = Some rest"
  have l: "length r \<le> length s" if "after_first ''```'' s = Some r" for s r
    using that by (induction s) (auto split: if_splits)
  from o obtain n where "t = drop (n + 4) (x # xs)"
    by (auto simp: open_fence_def split: list.splits)
  then have "length t < length (x # xs)" by simp
  with l [OF a] show "(rest, x # xs) \<in> measure length" by simp
qed

definition extract_code_spec :: "string \<Rightarrow> string" where
  "extract_code_spec stdout =
     (if fenced_blocks_spec stdout = [] then stdout
      else join ''\<newline>\<newline>'' (fenced_blocks_spec stdout))"

text \<open>
  The reasoning section: the text after the first \<open>## Reasoning\<close> line header, up to the
  next \<open>##\<close> or the end of the text, with the whitespace at both ends removed.
\<close>

definition reasoning_section_spec :: "string \<Rightarrow> string" where
  "reasoning_section_spec stdout =
     (case after_first ''## Reasoning\<newline>'' stdout of
        None \<Rightarrow> []
      | Some t \<Rightarrow> strip (before_first ''##'' t))"

text \<open>
  The text the lazy group of the reasoning pattern takes: it stops before \<open>##\<close>, at the
  end of the text, or before a newline that ends the text.
\<close>

fun lazy_cut :: "string \<Rightarrow> string" where
  "lazy_cut [] = []"
| "lazy_cut (x # xs) =
     (if prefix ''##'' (x # xs) \<or> x # xs = ''\<newline>'' then [] else x # lazy_cut xs)"

section \<open>Auxiliary notions for the proofs\<close>

text \<open>The outcomes of the four checks of each variant, in the order of the source.\<close>

definition TypeScriptMetric_outcomes :: "string \<Rightarrow> bool list" where
  "TypeScriptMetric_outcomes code =
     [has_ts_syntax code, has_functions code, has_error_handling code, has_exports code]"

definition TestDocMetric_outcomes :: "string \<Rightarrow> bool list" where
  "TestDocMetric_outcomes code =
     [has_test_structure code, has_test_content code, has_headers code, has_structure code]"

text \<open>
  A class without whitespace characters, and a pattern every match of which passes at
  least one character that is not whitespace.
\<close>

fun cs_ink :: "cset \<Rightarrow> bool" where
  "cs_ink (CChar c) = (\<not> isspace c)"
| "cs_ink CSpace = False"
| "cs_ink CWord = True"
| "cs_ink CAny = False"
| "cs_ink (COneOf cs) = (\<forall>c\<in>set cs. \<not> isspace c)"
| "cs_ink (CNoneOf cs) = False"

fun needs_ink :: "regex \<Rightarrow> bool" where
  "needs_ink (Lit w) = (\<exists>c\<in>set w. \<not> isspace c)"
| "needs_ink (Atom cs) = cs_ink cs"
| "needs_ink (Seq r1 r2) = (needs_ink r1 \<or> needs_ink r2)"
| "needs_ink (Alt r1 r2) = (needs_ink r1 \<and> needs_ink r2)"
| "needs_ink (Opt r) = False"
| "needs_ink (Star cs) = False"
| "needs_ink (Plus cs) = cs_ink cs"
| "needs_ink (LazyStar cs) = False"
| "needs_ink Bol = False"
| "needs_ink Eot = False"
| "needs_ink (Look r) = needs_ink r"
| "needs_ink (Grp n r) = needs_ink r"

text \<open>A text without braces.\<close>

definition no_brace :: "string \<Rightarrow> bool" where
  "no_brace u = (CHR ''{'' \<notin> set u \<and> CHR ''}'' \<notin> set u)"

section \<open>Properties of the scoring functions\<close>

lemma TypeScriptMetric_call_content:
  "\<not> no_content (get_code_output p) \<Longrightarrow>
     TypeScriptMetric_call p =
       \<lparr>score = mean_score (TypeScriptMetric_checks (get_code_output p)),
        feedback = join [CHR 0x0A] (TypeScriptMetric_feedback (get_code_output p))\<rparr>"
  by (simp add: TypeScriptMetric_call_def Let_def)

lemma TestDocMetric_call_content:
  "\<not> no_content (get_code_output p) \<Longrightarrow>
     TestDocMetric_call p =
       \<lparr>score = mean_score (TestDocMetric_checks (get_code_output p)),
        feedback = join [CHR 0x0A] (TestDocMetric_feedback (get_code_output p))\<rparr>"
  by (simp add: TestDocMetric_call_def Let_def)

lemma metric_call_no_content:
  "no_content (get_code_output p) \<Longrightarrow>
     TypeScriptMetric_call p = \<lparr>score = 0, feedback = ''No content generated''\<rparr> \<and>
     TestDocMetric_call p = \<lparr>score = 0, feedback = ''No content generated''\<rparr>"
  by (simp add: TypeScriptMetric_call_def TestDocMetric_call_def)

text \<open>
  Claim C1, as stated: for an empty or whitespace-only primary output both variants
  return the score 0.0 with the feedback "no content generated". It fails on the
  feedback text: on the empty output the code variant's feedback is not that string
  (the source writes it with a capital N).
\<close>

theorem C1_feedback_text_counterexample:
  "no_content (get_code_output \<lparr>code_output = Some [], doc_output = None, reasoning = []\<rparr>) \<and>
   feedback (TypeScriptMetric_call \<lparr>code_output = Some [], doc_output = None, reasoning = []\<rparr>)
     \<noteq> ''no content generated''"
  by (simp add: TypeScriptMetric_call_def get_code_output_def no_content_def)

text \<open>
  Claim C1, amended: for every prediction whose primary output is empty or consists only
  of whitespace, both variants return the score 0.0 with the feedback
  "No content generated" and nothing else: no check contributes to the score or to the
  feedback.
\<close>

theorem C1_no_content_scores_zero:
  "no_content (get_code_output p) \<longrightarrow>
     TypeScriptMetric_call p = \<lparr>score = 0, feedback = ''No content generated''\<rparr> \<and>
     TestDocMetric_call p = \<lparr>score = 0, feedback = ''No content generated''\<rparr>"
  by (simp add: TypeScriptMetric_call_def TestDocMetric_call_def)

theorem C1_no_content_scores_zero_witness:
  "no_content (get_code_output
       \<lparr>code_output = Some [CHR '' '', CHR 0x0A, CHR 0x09], doc_output = None, reasoning = []\<rparr>) \<and>
   TypeScriptMetric_call
       \<lparr>code_output = Some [CHR '' '', CHR 0x0A, CHR 0x09], doc_output = None, reasoning = []\<rparr>
     = \<lparr>score = 0, feedback = ''No content generated''\<rparr> \<and>
   TestDocMetric_call
       \<lparr>code_output = Some [CHR '' '', CHR 0x0A, CHR 0x09], doc_output = None, reasoning = []\<rparr>
     = \<lparr>score = 0, feedback = ''No content generated''\<rparr>"
  using C1_no_content_scores_zero
    [of "\<lparr>code_output = Some [CHR '' '', CHR 0x0A, CHR 0x09], doc_output = None, reasoning = []\<rparr>"]
  by (simp add: get_code_output_def no_content_def strip_def isspace_def)

text \<open>
  Claim C2, as stated: in each variant the count-threshold check gives 1.0 when the
  threshold is met and 0.3 otherwise. It fails for the documentation variant: on the
  text "x" fewer than three test keywords occur and the partial score of the keyword
  check (the second one) is not 0.3.
\<close>

theorem C2_doc_threshold_counterexample:
  "\<not> no_content ''x'' \<and> test_keyword_count ''x'' < 3 \<and> TestDocMetric_checks ''x'' ! 1 \<noteq> 0.3"
  by (simp add: no_content_def strip_def isspace_def TestDocMetric_checks_def has_test_content_def
      test_keyword_count_def test_keywords_def lower_def lower_char_def)

text \<open>
  Claim C2, amended: for every non-empty, non-whitespace-only primary output each
  variant evaluates exactly four checks, each contributing a partial score from
  {0.0, 0.3, 0.5, 1.0}, and the final score is the arithmetic mean of the four. In the
  code variant the keyword-count check gives 1.0 or 0.3, the function/class check 1.0
  or 0.0, the error-handling and export checks 1.0 or 0.5. In the documentation
  variant the test-structure check gives 1.0 or 0.0 and the other three, the
  keyword-count check included, give 1.0 or 0.5.
\<close>

theorem C2_four_checks_mean:
  "\<not> no_content (get_code_output p) \<longrightarrow>
     (let code = get_code_output p; ts = TypeScriptMetric_checks code; doc = TestDocMetric_checks code in
      length ts = 4 \<and> length doc = 4 \<and>
      set ts \<subseteq> {0.0, 0.3, 0.5, 1.0} \<and> set doc \<subseteq> {0.0, 0.3, 0.5, 1.0} \<and>
      ts ! 0 = (if 2 \<le> ts_keyword_count code then 1.0 else 0.3) \<and>
      ts ! 1 = (if has_functions code then 1.0 else 0.0) \<and>
      ts ! 2 = (if has_error_handling code then 1.0 else 0.5) \<and>
      ts ! 3 = (if has_exports code then 1.0 else 0.5) \<and>
      doc ! 0 = (if has_test_structure code then 1.0 else 0.0) \<and>
      doc ! 1 = (if 3 \<le> test_keyword_count code then 1.0 else 0.5) \<and>
      doc ! 2 = (if has_headers code then 1.0 else 0.5) \<and>
      doc ! 3 = (if has_structure code then 1.0 else 0.5) \<and>
      score (TypeScriptMetric_call p) = (ts ! 0 + ts ! 1 + ts ! 2 + ts ! 3) / 4 \<and>
      score (TestDocMetric_call p) = (doc ! 0 + doc ! 1 + doc ! 2 + doc ! 3) / 4)"
  by (simp add: TypeScriptMetric_call_content TestDocMetric_call_content mean_score_def Let_def
      TypeScriptMetric_checks_def TestDocMetric_checks_def has_ts_syntax_def has_test_content_def)

theorem C2_four_checks_mean_witness:
  "\<not> no_content (get_code_output \<lparr>code_output = Some ''x'', doc_output = None, reasoning = []\<rparr>) \<and>
   TypeScriptMetric_checks ''x'' = [0.3, 0.0, 0.5, 0.5] \<and>
   TestDocMetric_checks ''x'' = [0.0, 0.5, 0.5, 0.5] \<and>
   score (TypeScriptMetric_call \<lparr>code_output = Some ''x'', doc_output = None, reasoning = []\<rparr>) = 0.325 \<and>
   score (TestDocMetric_call \<lparr>code_output = Some ''x'', doc_output = None, reasoning = []\<rparr>) = 0.375"
proof -
  let ?p = "\<lparr>code_output = Some ''x'', doc_output = None, reasoning = []\<rparr>"
  have c: "get_code_output ?p = ''x''"
    by (simp add: get_code_output_def)
  have n: "\<not> no_content (get_code_output ?p)"
    by (simp add: c no_content_def strip_def isspace_def)
  have ts: "TypeScriptMetric_checks ''x'' = [0.3, 0.0, 0.5, 0.5]"
    by (simp add: TypeScriptMetric_checks_def has_ts_syntax_def ts_keyword_count_def
        ts_keywords_def has_functions_def has_error_handling_def has_exports_def re_found_def
        re_search_def re_functions_def re_error_handling_def re_exports_def lit_match_def)
  have doc: "TestDocMetric_checks ''x'' = [0.0, 0.5, 0.5, 0.5]"
    by (simp add: TestDocMetric_checks_def has_test_content_def test_keyword_count_def
        test_keywords_def has_test_structure_def has_headers_def has_structure_def re_found_def
        re_search_def re_test_structure_def re_headers_def re_structure_def lit_match_def
        lower_def lower_char_def)
  from C2_four_checks_mean [of ?p] n
  have "score (TypeScriptMetric_call ?p) =
          (TypeScriptMetric_checks ''x'' ! 0 + TypeScriptMetric_checks ''x'' ! 1 +
           TypeScriptMetric_checks ''x'' ! 2 + TypeScriptMetric_checks ''x'' ! 3) / 4"
    and "score (TestDocMetric_call ?p) =
          (TestDocMetric_checks ''x'' ! 0 + TestDocMetric_checks ''x'' ! 1 +
           TestDocMetric_checks ''x'' ! 2 + TestDocMetric_checks ''x'' ! 3) / 4"
    by (simp_all add: c Let_def)
  with n ts doc show ?thesis by simp
qed

text \<open>
  Claim C10: for every prediction whose primary output is non-empty and not
  whitespace-only the code variant's score is at least 0.325 and the documentation
  variant's at least 0.375, both are at most 1.0; a score of 0.0 occurs only for an empty
  or whitespace-only output.
\<close>

theorem C10_score_bounds:
  "(\<not> no_content (get_code_output p) \<longrightarrow>
      0.325 \<le> score (TypeScriptMetric_call p) \<and> score (TypeScriptMetric_call p) \<le> 1.0 \<and>
      0.375 \<le> score (TestDocMetric_call p) \<and> score (TestDocMetric_call p) \<le> 1.0) \<and>
   (score (TypeScriptMetric_call p) = 0.0 \<longrightarrow> no_content (get_code_output p)) \<and>
   (score (TestDocMetric_call p) = 0.0 \<longrightarrow> no_content (get_code_output p))"
  by (simp add: TypeScriptMetric_call_def TestDocMetric_call_def TypeScriptMetric_checks_def
      TestDocMetric_checks_def mean_score_def Let_def)

theorem C10_score_bounds_witness:
  "\<not> no_content (get_code_output \<lparr>code_output = Some ''x'', doc_output = None, reasoning = []\<rparr>) \<and>
   0.325 \<le> score (TypeScriptMetric_call \<lparr>code_output = Some ''x'', doc_output = None, reasoning = []\<rparr>) \<and>
   0.375 \<le> score (TestDocMetric_call \<lparr>code_output = Some ''x'', doc_output = None, reasoning = []\<rparr>) \<and>
   score (TypeScriptMetric_call \<lparr>code_output = Some [], doc_output = None, reasoning = []\<rparr>) = 0.0 \<and>
   no_content (get_code_output \<lparr>code_output = Some [], doc_output = None, reasoning = []\<rparr>)"
proof -
  let ?p = "\<lparr>code_output = Some ''x'', doc_output = None, reasoning = []\<rparr>"
  let ?q = "\<lparr>code_output = Some [], doc_output = None, reasoning = []\<rparr>"
  have n: "\<not> no_content (get_code_output ?p)"
    by (simp add: get_code_output_def no_content_def strip_def isspace_def)
  have z: "score (TypeScriptMetric_call ?q) = 0.0"
    by (simp add: TypeScriptMetric_call_def get_code_output_def no_content_def)
  from C10_score_bounds [of ?p] n C10_score_bounds [of ?q] z show ?thesis
    by simp
qed

section \<open>Properties of the model adapters\<close>

text \<open>
  Claim C5: for every input and every exception raised by the external text-generation
  invocation (a timeout and an invalid binary path included), \<open>forward\<close> of either
  adapter does not let the exception out: it returns a prediction whose primary output
  is the empty string and whose reasoning is non-empty and carries the error
  description.
\<close>

theorem C5_adapter_never_raises:
  "(\<exists>p. TypeScriptCodeAdapter_forward run a story_context tech_stack = Inr p) \<and>
   (\<exists>p. TestDocAdapter_forward run a story_context tech_stack = Inr p) \<and>
   (\<forall>e. run [gemini_binary a, ''-p'', ts_prepare_prompt a story_context tech_stack]
            (repo_root a) (timeout_seconds a) = Inl e \<longrightarrow>
        (\<exists>p. TypeScriptCodeAdapter_forward run a story_context tech_stack = Inr p \<and>
             code_output p = Some [] \<and> reasoning p = ''Error: '' @ exc_str e \<and> reasoning p \<noteq> [])) \<and>
   (\<forall>e. run [gemini_binary a, ''-p'', doc_prepare_prompt a story_context]
            (repo_root a) (timeout_seconds a) = Inl e \<longrightarrow>
        (\<exists>p. TestDocAdapter_forward run a story_context tech_stack = Inr p \<and>
             code_output p = Some [] \<and> reasoning p = ''Error: '' @ exc_str e \<and> reasoning p \<noteq> []))"
  by (simp add: TypeScriptCodeAdapter_forward_def TestDocAdapter_forward_def Let_def split: sum.splits)

theorem C5_adapter_never_raises_witness:
  "TypeScriptCodeAdapter_forward
      (\<lambda>args cwd t. Inl (FileNotFoundError ''[Errno 2] No such file or directory''))
      \<lparr>gemini_binary = ''/no/such/gemini'', repo_root = ''.'', timeout_seconds = 300,
        instructions = ''Write code.'', demos = []\<rparr> ''story'' ''TypeScript''
     = Inr \<lparr>code_output = Some [], doc_output = None,
            reasoning = ''Error: [Errno 2] No such file or directory''\<rparr> \<and>
   TestDocAdapter_forward
      (\<lambda>args cwd t. Inl (TimeoutExpired ''timed out after 300 seconds''))
      \<lparr>gemini_binary = ''gemini'', repo_root = ''.'', timeout_seconds = 300,
        instructions = ''Write tests.'', demos = []\<rparr> ''story'' ''Jest''
     = Inr \<lparr>code_output = Some [], doc_output = Some [],
            reasoning = ''Error: timed out after 300 seconds''\<rparr>"
proof -
  let ?run = "\<lambda>(args :: string list) (cwd :: string) (t :: nat).
     Inl (FileNotFoundError ''[Errno 2] No such file or directory'') :: py_exception + string"
  let ?run2 = "\<lambda>(args :: string list) (cwd :: string) (t :: nat).
     Inl (TimeoutExpired ''timed out after 300 seconds'') :: py_exception + string"
  let ?a = "\<lparr>gemini_binary = ''/no/such/gemini'', repo_root = ''.'', timeout_seconds = 300,
     instructions = ''Write code.'', demos = []\<rparr>"
  let ?a2 = "\<lparr>gemini_binary = ''gemini'', repo_root = ''.'', timeout_seconds = 300,
     instructions = ''Write tests.'', demos = []\<rparr>"
  from C5_adapter_never_raises [of ?run ?a "''story''" "''TypeScript''"]
  obtain p where p: "TypeScriptCodeAdapter_forward ?run ?a ''story'' ''TypeScript'' = Inr p"
      "code_output p = Some []" "reasoning p = ''Error: [Errno 2] No such file or directory''"
    by auto
  moreover have "doc_output p = None" using p(1)
    by (auto simp: TypeScriptCodeAdapter_forward_def Let_def)
  ultimately have 1: "TypeScriptCodeAdapter_forward ?run ?a ''story'' ''TypeScript''
     = Inr \<lparr>code_output = Some [], doc_output = None,
            reasoning = ''Error: [Errno 2] No such file or directory''\<rparr>"
    by (cases p) simp
  from C5_adapter_never_raises [of ?run2 ?a2 "''story''" "''Jest''"]
  obtain q where q: "TestDocAdapter_forward ?run2 ?a2 ''story'' ''Jest'' = Inr q"
      "code_output q = Some []" "reasoning q = ''Error: timed out after 300 seconds''"
    by auto
  moreover have "doc_output q = Some []" using q(1)
    by (auto simp: TestDocAdapter_forward_def Let_def)
  ultimately have 2: "TestDocAdapter_forward ?run2 ?a2 ''story'' ''Jest''
     = Inr \<lparr>code_output = Some [], doc_output = Some [],
            reasoning = ''Error: timed out after 300 seconds''\<rparr>"
    by (cases q) simp
  from 1 2 show ?thesis by simp
qed

section \<open>Properties of the evolution driver\<close>

lemma path_suffix_neq:
  "last u \<noteq> last v \<Longrightarrow> u \<noteq> [] \<Longrightarrow> v \<noteq> [] \<Longrightarrow> xs @ u \<noteq> ys @ v"
proof
  assume a: "last u \<noteq> last v" "u \<noteq> []" "v \<noteq> []" and e: "xs @ u = ys @ v"
  from e have "last (xs @ u) = last (ys @ v)" by simp
  with a show False by simp
qed

lemma save_optimized_skill_writes:
  "save_optimized_skill unified_diff final baseline skill_dir output_dir tstamp =
     [(skill_dir @ ''/adapter.md'', final),
      (output_dir @ ''/skill_versions/adapter_md_'' @ tstamp @ ''.md'', final)] @
     (if unified_diff (splitlines baseline) (splitlines final) \<noteq> []
      then [(skill_dir @ ''/diffs/run_'' @ tstamp @ ''.diff'',
             concat (unified_diff (splitlines baseline) (splitlines final)))]
      else [])"
  by (simp add: save_optimized_skill_def Let_def)

text \<open>
  Claim C7: the \<open>changed\<close> field of the summary is true exactly when the final
  instruction differs from the baseline instruction as a string, and the optimized
  instruction file and the diff file are written only in the changed case: with
  identical text the only write is the summary itself.
\<close>

theorem C7_changed_flag:
  "run_optimization unified_diff dumps skill_name categ skill_dir output_dir tstamp baseline (Inr final)
     = Inr (summ, writes) \<longrightarrow>
   (changed summ \<longleftrightarrow> final \<noteq> baseline) \<and>
   (final = baseline \<longrightarrow>
      writes = [(output_dir @ ''/optimization_'' @ skill_name @ ''_'' @ tstamp @ ''.json'', dumps summ)] \<and>
      skill_dir @ ''/adapter.md'' \<notin> fst ` set writes \<and>
      skill_dir @ ''/diffs/run_'' @ tstamp @ ''.diff'' \<notin> fst ` set writes) \<and>
   (final \<noteq> baseline \<longrightarrow>
      (skill_dir @ ''/adapter.md'', final) \<in> set writes \<and>
      ((\<exists>text. (skill_dir @ ''/diffs/run_'' @ tstamp @ ''.diff'', text) \<in> set writes)
         \<longleftrightarrow> unified_diff (splitlines baseline) (splitlines final) \<noteq> []))"
proof (intro impI)
  define res where "res = output_dir @ ''/optimization_'' @ skill_name @ ''_'' @ tstamp @ ''.json''"
  define tgt where "tgt = skill_dir @ ''/adapter.md''"
  define ver where "ver = output_dir @ ''/skill_versions/adapter_md_'' @ tstamp @ ''.md''"
  define dif where "dif = skill_dir @ ''/diffs/run_'' @ tstamp @ ''.diff''"
  define ud where "ud = unified_diff (splitlines baseline) (splitlines final)"
  assume a: "run_optimization unified_diff dumps skill_name categ skill_dir output_dir tstamp baseline (Inr final)
     = Inr (summ, writes)"
  have r: "res = (output_dir @ ''/optimization_'' @ skill_name @ ''_'' @ tstamp) @ ''.json''"
    by (simp add: res_def)
  have t: "tgt = (skill_dir @ ''/adapter'') @ ''.md''"
    by (simp add: tgt_def)
  have v: "ver = (output_dir @ ''/skill_versions/adapter_md_'' @ tstamp) @ ''.md''"
    by (simp add: ver_def)
  have d: "dif = (skill_dir @ ''/diffs/run_'' @ tstamp) @ ''.diff''"
    by (simp add: dif_def)
  have d1: "tgt \<noteq> res" unfolding r t by (rule path_suffix_neq) simp_all
  have d2: "dif \<noteq> res" unfolding r d by (rule path_suffix_neq) simp_all
  have d3: "dif \<noteq> tgt" unfolding t d by (rule path_suffix_neq) simp_all
  have d4: "dif \<noteq> ver" unfolding v d by (rule path_suffix_neq) simp_all
  have goal: "(changed summ \<longleftrightarrow> final \<noteq> baseline) \<and>
   (final = baseline \<longrightarrow>
      writes = [(res, dumps summ)] \<and> tgt \<notin> fst ` set writes \<and> dif \<notin> fst ` set writes) \<and>
   (final \<noteq> baseline \<longrightarrow>
      (tgt, final) \<in> set writes \<and> ((\<exists>text. (dif, text) \<in> set writes) \<longleftrightarrow> ud \<noteq> []))"
  proof (cases "final = baseline")
    case True
    with a have w: "writes = [(res, dumps summ)]" and c: "\<not> changed summ"
      by (auto simp: run_optimization_def Let_def res_def)
    from w d1 d2 c True show ?thesis by simp
  next
    case False
    with a have c: "changed summ"
      and w: "writes = [(tgt, final), (ver, final)] @ (if ud \<noteq> [] then [(dif, concat ud)] else [])
                 @ [(res, dumps summ)]"
      by (auto simp: run_optimization_def Let_def save_optimized_skill_writes res_def tgt_def
          ver_def dif_def ud_def)
    from False c d2 d3 d4 show ?thesis
      unfolding w by auto
  qed
  then show "(changed summ \<longleftrightarrow> final \<noteq> baseline) \<and>
   (final = baseline \<longrightarrow>
      writes = [(output_dir @ ''/optimization_'' @ skill_name @ ''_'' @ tstamp @ ''.json'', dumps summ)] \<and>
      skill_dir @ ''/adapter.md'' \<notin> fst ` set writes \<and>
      skill_dir @ ''/diffs/run_'' @ tstamp @ ''.diff'' \<notin> fst ` set writes) \<and>
   (final \<noteq> baseline \<longrightarrow>
      (skill_dir @ ''/adapter.md'', final) \<in> set writes \<and>
      ((\<exists>text. (skill_dir @ ''/diffs/run_'' @ tstamp @ ''.diff'', text) \<in> set writes)
         \<longleftrightarrow> unified_diff (splitlines baseline) (splitlines final) \<noteq> []))"
    unfolding res_def tgt_def dif_def ud_def .
qed

theorem C7_changed_flag_witness:
  "run_optimization (\<lambda>a b. if a = b then [] else [''-old'', ''+new'']) (\<lambda>s. ''{}'')
      ''qa-engineer'' ''cli'' ''skills/qa-engineer'' ''out'' ''T'' ''old'' (Inr ''new'')
     = Inr (\<lparr>skill = ''qa-engineer'', category = ''cli'', optimizer = ''COPRO'',
             baseline_chars = 3, optimized_chars = 3, changed = True, timestamp = ''T''\<rparr>,
            [(''skills/qa-engineer/adapter.md'', ''new''),
             (''out/skill_versions/adapter_md_T.md'', ''new''),
             (''skills/qa-engineer/diffs/run_T.diff'', ''-old+new''),
             (''out/optimization_qa-engineer_T.json'', ''{}'')]) \<and>
   run_optimization (\<lambda>a b. if a = b then [] else [''-old'', ''+new'']) (\<lambda>s. ''{}'')
      ''qa-engineer'' ''cli'' ''skills/qa-engineer'' ''out'' ''T'' ''old'' (Inr ''old'')
     = Inr (\<lparr>skill = ''qa-engineer'', category = ''cli'', optimizer = ''COPRO'',
             baseline_chars = 3, optimized_chars = 3, changed = False, timestamp = ''T''\<rparr>,
            [(''out/optimization_qa-engineer_T.json'', ''{}'')])"
  using C7_changed_flag [of "\<lambda>a b. if a = b then [] else [''-old'', ''+new'']" "\<lambda>s. ''{}''"
      "''qa-engineer''" "''cli''" "''skills/qa-engineer''" "''out''" "''T''" "''old''" "''new''"]
    C7_changed_flag [of "\<lambda>a b. if a = b then [] else [''-old'', ''+new'']" "\<lambda>s. ''{}''"
      "''qa-engineer''" "''cli''" "''skills/qa-engineer''" "''out''" "''T''" "''old''" "''old''"]
  by (simp add: run_optimization_def save_optimized_skill_def splitlines_def is_linebreak_def Let_def)

section \<open>Searching: general facts\<close>

lemma str_in_iff: "str_in sub s \<longleftrightarrow> (\<exists>p q. s = p @ sub @ q)"
proof (induction s)
  case Nil
  then show ?case by simp
next
  case (Cons x xs)
  show ?case
  proof
    assume "str_in sub (x # xs)"
    then consider "prefix sub (x # xs)" | "str_in sub xs" by auto
    then show "\<exists>p q. x # xs = p @ sub @ q"
    proof cases
      case 1
      then obtain q where "x # xs = sub @ q" by (auto simp: prefix_def)
      then have "x # xs = [] @ sub @ q" by simp
      then show ?thesis by blast
    next
      case 2
      with Cons.IH obtain p q where "xs = p @ sub @ q" by auto
      then have "x # xs = (x # p) @ sub @ q" by simp
      then show ?thesis by blast
    qed
  next
    assume "\<exists>p q. x # xs = p @ sub @ q"
    then obtain p q where e: "x # xs = p @ sub @ q" by auto
    show "str_in sub (x # xs)"
    proof (cases p)
      case Nil
      with e have "prefix sub (x # xs)" by (simp add: prefix_def)
      then show ?thesis by simp
    next
      case (Cons y p')
      with e have "xs = p' @ sub @ q" by simp
      with Cons.IH have "str_in sub xs" by blast
      then show ?thesis by simp
    qed
  qed
qed

lemma search_from_None_iff:
  "search_from ic r b a = None \<longleftrightarrow> (\<forall>p q. a = p @ q \<longrightarrow> ms ic r (rev p @ b, q, Map.empty) = [])"
proof (induction a arbitrary: b)
  case Nil
  then show ?case by (simp split: list.splits)
next
  case (Cons x a)
  have "(\<forall>p q. x # a = p @ q \<longrightarrow> ms ic r (rev p @ b, q, Map.empty) = []) \<longleftrightarrow>
        ms ic r (b, x # a, Map.empty) = [] \<and>
        (\<forall>p q. a = p @ q \<longrightarrow> ms ic r (rev p @ x # b, q, Map.empty) = [])"
    (is "?L \<longleftrightarrow> ?R")
  proof
    assume l: ?L
    have "ms ic r (rev [] @ b, x # a, Map.empty) = []" using l by blast
    moreover have "ms ic r (rev p @ x # b, q, Map.empty) = []" if "a = p @ q" for p q
    proof -
      from that have "x # a = (x # p) @ q" by simp
      with l have "ms ic r (rev (x # p) @ b, q, Map.empty) = []" by blast
      then show ?thesis by simp
    qed
    ultimately show ?R by simp
  next
    assume r: ?R
    show ?L
    proof (intro allI impI)
      fix p q assume e: "x # a = p @ q"
      show "ms ic r (rev p @ b, q, Map.empty) = []"
      proof (cases p)
        case Nil
        with e r show ?thesis by simp
      next
        case (Cons y p')
        with e have "a = p' @ q" "y = x" by simp_all
        with r Cons show ?thesis by simp
      qed
    qed
  qed
  with Cons.IH [of "x # b"] show ?case by (simp split: list.splits)
qed

lemma re_found_iff:
  "re_found ic r s \<longleftrightarrow> (\<exists>p q. s = p @ q \<and> ms ic r (rev p, q, Map.empty) \<noteq> [])"
  using search_from_None_iff [of ic r "[]" s] by (auto simp: re_found_def re_search_def)

lemma re_found_at:
  "ms ic r (rev p, q, Map.empty) \<noteq> [] \<Longrightarrow> re_found ic r (p @ q)"
  by (auto simp: re_found_iff)


lemma strip_Nil_iff: "strip s = [] \<longleftrightarrow> (\<forall>c\<in>set s. isspace c)"
proof -
  have "strip s = [] \<longleftrightarrow> (\<forall>c\<in>set (dropWhile isspace s). isspace c)"
    by (simp add: strip_def dropWhile_eq_Nil_conv)
  also have "\<dots> \<longleftrightarrow> dropWhile isspace s = []"
  proof
    assume a: "\<forall>c\<in>set (dropWhile isspace s). isspace c"
    show "dropWhile isspace s = []"
    proof (rule ccontr)
      assume n: "dropWhile isspace s \<noteq> []"
      then have "\<not> isspace (hd (dropWhile isspace s))" by (rule hd_dropWhile)
      moreover from n have "hd (dropWhile isspace s) \<in> set (dropWhile isspace s)" by simp
      ultimately show False using a by blast
    qed
  qed (auto dest: set_dropWhileD)
  also have "\<dots> \<longleftrightarrow> (\<forall>c\<in>set s. isspace c)"
    by (simp add: dropWhile_eq_Nil_conv)
  finally show ?thesis .
qed

lemma no_content_iff: "no_content s \<longleftrightarrow> (\<forall>c\<in>set s. isspace c)"
  by (auto simp: no_content_def strip_Nil_iff)

lemma has_functions_I: "has_functions (p @ ''function foo('' @ q)"
  unfolding has_functions_def
  by (rule re_found_at) (simp add: re_functions_def lit_match_def isspace_def isword_def isalnum_def)

lemma has_error_handling_I: "has_error_handling (p @ ''try {'' @ q)"
  unfolding has_error_handling_def
  by (rule re_found_at) (simp add: re_error_handling_def lit_match_def isspace_def)

lemma has_exports_I: "has_exports (p @ ''export function'' @ q)"
  unfolding has_exports_def
  by (rule re_found_at) (simp add: re_exports_def lit_match_def isspace_def)


lemma ts_keyword_count_ge2:
  assumes "str_in ''interface'' code" "str_in ''type'' code"
  shows "has_ts_syntax code"
  using assms by (simp add: has_ts_syntax_def ts_keyword_count_def ts_keywords_def)

text \<open>
  Claim C4: in the code variant, a text containing
  \<^verbatim>\<open>export function foo() { try {} catch(e) { throw new Error(e) } }\<close> together with
  the keywords interface, type and async scores exactly 1.0, all four checks satisfied.
\<close>

theorem C4_ts_full_score:
  assumes "str_in ''export function foo() { try {} catch(e) { throw new Error(e) } }'' (get_code_output p)"
    and "str_in ''interface'' (get_code_output p)"
    and "str_in ''type'' (get_code_output p)"
    and "str_in ''async'' (get_code_output p)"
  shows "TypeScriptMetric_checks (get_code_output p) = [1.0, 1.0, 1.0, 1.0] \<and>
         score (TypeScriptMetric_call p) = 1.0"
proof -
  let ?code = "get_code_output p"
  from assms(1) obtain u v where
    e: "?code = u @ ''export function foo() { try {} catch(e) { throw new Error(e) } }'' @ v"
    by (auto simp: str_in_iff)
  have "CHR ''e'' \<in> set ?code" by (simp add: e)
  moreover have "\<not> isspace CHR ''e''" by (simp add: isspace_def)
  ultimately have nc: "\<not> no_content ?code" by (auto simp: no_content_iff)
  have k: "has_ts_syntax ?code" using assms(2,3) by (rule ts_keyword_count_ge2)
  have "?code = (u @ ''export '') @ ''function foo('' @ '') { try {} catch(e) { throw new Error(e) } }'' @ v"
    by (simp add: e)
  then have f: "has_functions ?code" by (simp only: has_functions_I)
  have "?code = (u @ ''export function foo() { '') @ ''try {'' @ ''} catch(e) { throw new Error(e) } }'' @ v"
    by (simp add: e)
  then have h: "has_error_handling ?code" by (simp only: has_error_handling_I)
  have "?code = u @ ''export function'' @ '' foo() { try {} catch(e) { throw new Error(e) } }'' @ v"
    by (simp add: e)
  then have x: "has_exports ?code" by (simp only: has_exports_I)
  from k f h x have c: "TypeScriptMetric_checks ?code = [1.0, 1.0, 1.0, 1.0]"
    by (simp add: TypeScriptMetric_checks_def)
  from nc c show ?thesis
    by (simp add: TypeScriptMetric_call_content mean_score_def)
qed


theorem C4_ts_full_score_witness:
  "str_in ''export function foo() { try {} catch(e) { throw new Error(e) } }''
     (get_code_output \<lparr>code_output = Some
        ''interface A {} type B = A; async () => 0; export function foo() { try {} catch(e) { throw new Error(e) } }'',
        doc_output = None, reasoning = []\<rparr>) \<and>
   score (TypeScriptMetric_call \<lparr>code_output = Some
        ''interface A {} type B = A; async () => 0; export function foo() { try {} catch(e) { throw new Error(e) } }'',
        doc_output = None, reasoning = []\<rparr>) = 1.0"
proof -
  let ?p = "\<lparr>code_output = Some
        ''interface A {} type B = A; async () => 0; export function foo() { try {} catch(e) { throw new Error(e) } }'',
        doc_output = None, reasoning = []\<rparr>"
  have 1: "str_in ''export function foo() { try {} catch(e) { throw new Error(e) } }'' (get_code_output ?p)"
    by (simp add: get_code_output_def)
  have 2: "str_in ''interface'' (get_code_output ?p)"
    by (simp add: get_code_output_def)
  have 3: "str_in ''type'' (get_code_output ?p)"
    by (simp add: get_code_output_def)
  have 4: "str_in ''async'' (get_code_output ?p)"
    by (simp add: get_code_output_def)
  from C4_ts_full_score [OF 1 2 3 4] 1 show ?thesis by simp
qed

section \<open>The documentation variant on the sample text\<close>

lemma has_test_structure_I: "has_test_structure (p @ ''describe('' @ q)"
  unfolding has_test_structure_def
  by (rule re_found_at) (simp add: re_test_structure_def lit_match_def lower_def lower_char_def)

lemma has_structure_I: "has_structure (p @ ''```'' @ q)"
  unfolding has_structure_def
  by (rule re_found_at) (simp add: re_structure_def lit_match_def)

text \<open>
  Claim C3, as stated: in the documentation variant a text containing
  \<^verbatim>\<open>describe("x", () => { it("y", () => { expect(1).toBe(1) }) })\<close> plus a markdown
  \<open>#\<close> header line and a fenced code block scores exactly 1.0. It fails: the text
  made of a header line and the sample in a fenced block holds one test keyword only
  (expect), so the keyword check contributes 0.5 and the score is 0.875.
\<close>

theorem C3_doc_snippet_counterexample:
  "str_in ''describe(\"x\", () => { it(\"y\", () => { expect(1).toBe(1) }) })''
     ''# Spec\<newline>```\<newline>describe(\"x\", () => { it(\"y\", () => { expect(1).toBe(1) }) })\<newline>```'' \<and>
   has_headers ''# Spec\<newline>```\<newline>describe(\"x\", () => { it(\"y\", () => { expect(1).toBe(1) }) })\<newline>```'' \<and>
   str_in ''```'' ''# Spec\<newline>```\<newline>describe(\"x\", () => { it(\"y\", () => { expect(1).toBe(1) }) })\<newline>```'' \<and>
   score (TestDocMetric_call \<lparr>code_output = Some
      ''# Spec\<newline>```\<newline>describe(\"x\", () => { it(\"y\", () => { expect(1).toBe(1) }) })\<newline>```'',
      doc_output = None, reasoning = []\<rparr>) = 0.875"
proof -
  let ?t = "''# Spec\<newline>```\<newline>describe(\"x\", () => { it(\"y\", () => { expect(1).toBe(1) }) })\<newline>```''"
  have 1: "str_in ''describe(\"x\", () => { it(\"y\", () => { expect(1).toBe(1) }) })'' ?t"
    by simp
  have 2: "has_headers ?t"
    by (simp add: has_headers_def re_found_def re_search_def re_headers_def isspace_def isword_def isalnum_def)
  have 3: "str_in ''```'' ?t" by simp
  have 4: "has_test_structure ?t"
    using has_test_structure_I [of "''# Spec\<newline>```\<newline>''" "''\"x\", () => { it(\"y\", () => { expect(1).toBe(1) }) })\<newline>```''"]
    by simp
  have 5: "has_structure ?t"
    using has_structure_I [of "''# Spec\<newline>''" "''\<newline>describe(\"x\", () => { it(\"y\", () => { expect(1).toBe(1) }) })\<newline>```''"]
    by simp
  have lo: "lower ?t = ''# spec\<newline>```\<newline>describe(\"x\", () => { it(\"y\", () => { expect(1).tobe(1) }) })\<newline>```''"
    by (simp add: lower_def lower_char_def char_of_eq_iff)
  have 6: "test_keyword_count ?t = 1"
    unfolding test_keyword_count_def lo by (simp add: test_keywords_def lower_def lower_char_def)
  have 7: "\<not> no_content ?t"
    by (simp add: no_content_def strip_def isspace_def)
  have "TestDocMetric_checks ?t = [1.0, 0.5, 1.0, 1.0]"
    by (simp add: TestDocMetric_checks_def 2 4 5 6 has_test_content_def)
  with 7 have "score (TestDocMetric_call \<lparr>code_output = Some ?t, doc_output = None, reasoning = []\<rparr>) = 0.875"
    by (simp add: TestDocMetric_call_def get_code_output_def mean_score_def)
  with 1 2 3 show ?thesis by blast
qed

text \<open>
  Claim C3, amended: in the documentation variant a text containing the sample plus a
  markdown header line (a line on which the header check matches) and a fenced code
  block scores exactly 1.0 when at least three of the eleven test keywords occur in it,
  case-insensitively, and 0.875 otherwise; the sample itself brings one keyword.
\<close>

theorem C3_doc_snippet_score:
  assumes "str_in ''describe(\"x\", () => { it(\"y\", () => { expect(1).toBe(1) }) })'' (get_code_output p)"
    and "has_headers (get_code_output p)"
    and "str_in ''```'' (get_code_output p)"
  shows "score (TestDocMetric_call p) =
           (if 3 \<le> test_keyword_count (get_code_output p) then 1.0 else 0.875)"
proof -
  let ?code = "get_code_output p"
  from assms(1) obtain u v where
    e: "?code = u @ ''describe(\"x\", () => { it(\"y\", () => { expect(1).toBe(1) }) })'' @ v"
    by (auto simp: str_in_iff)
  have "CHR ''d'' \<in> set ?code" by (simp add: e)
  moreover have "\<not> isspace CHR ''d''" by (simp add: isspace_def)
  ultimately have nc: "\<not> no_content ?code" by (auto simp: no_content_iff)
  have "?code = u @ ''describe('' @ ''\"x\", () => { it(\"y\", () => { expect(1).toBe(1) }) })'' @ v"
    by (simp add: e)
  then have t: "has_test_structure ?code" by (simp only: has_test_structure_I)
  from assms(3) obtain u' v' where "?code = u' @ ''```'' @ v'"
    by (auto simp: str_in_iff)
  then have s: "has_structure ?code" by (simp only: has_structure_I)
  from nc t s assms(2) show ?thesis
    by (simp add: TestDocMetric_call_content mean_score_def TestDocMetric_checks_def has_test_content_def)
qed


theorem C3_doc_snippet_score_witness:
  "str_in ''describe(\"x\", () => { it(\"y\", () => { expect(1).toBe(1) }) })''
     (get_code_output \<lparr>code_output = Some
        ''# Test\<newline>should verify\<newline>```\<newline>describe(\"x\", () => { it(\"y\", () => { expect(1).toBe(1) }) })\<newline>```'',
        doc_output = None, reasoning = []\<rparr>) \<and>
   3 \<le> test_keyword_count
      ''# Test\<newline>should verify\<newline>```\<newline>describe(\"x\", () => { it(\"y\", () => { expect(1).toBe(1) }) })\<newline>```'' \<and>
   score (TestDocMetric_call \<lparr>code_output = Some
        ''# Test\<newline>should verify\<newline>```\<newline>describe(\"x\", () => { it(\"y\", () => { expect(1).toBe(1) }) })\<newline>```'',
        doc_output = None, reasoning = []\<rparr>) = 1.0"
proof -
  let ?t = "''# Test\<newline>should verify\<newline>```\<newline>describe(\"x\", () => { it(\"y\", () => { expect(1).toBe(1) }) })\<newline>```''"
  let ?p = "\<lparr>code_output = Some ?t, doc_output = None, reasoning = []\<rparr>"
  have c: "get_code_output ?p = ?t" by (simp add: get_code_output_def)
  have 1: "str_in ''describe(\"x\", () => { it(\"y\", () => { expect(1).toBe(1) }) })'' (get_code_output ?p)"
    unfolding c by simp
  have 2: "has_headers (get_code_output ?p)"
    unfolding c
    by (simp add: has_headers_def re_found_def re_search_def re_headers_def isspace_def isword_def isalnum_def)
  have 3: "str_in ''```'' (get_code_output ?p)"
    unfolding c by simp
  have lo: "lower ?t = ''# test\<newline>should verify\<newline>```\<newline>describe(\"x\", () => { it(\"y\", () => { expect(1).tobe(1) }) })\<newline>```''"
    by (simp add: lower_def lower_char_def char_of_eq_iff)
  have 4: "test_keyword_count ?t = 4"
    unfolding test_keyword_count_def lo by (simp add: test_keywords_def lower_def lower_char_def)
  from C3_doc_snippet_score [OF 1 2 3] 1 4 show ?thesis
    by (simp add: c)
qed

section \<open>Whitespace-only text matches no check\<close>

lemma isspace_lower_char: "isspace (lower_char c) = isspace c"
  by (auto simp: isspace_def lower_char_def Let_def)

lemma isword_not_space: "isword x \<Longrightarrow> \<not> isspace x"
  by (auto simp: isword_def isalnum_def isspace_def Let_def)

lemma in_cset_ink: "cs_ink cs \<Longrightarrow> isspace x \<Longrightarrow> \<not> in_cset ic cs x"
proof (cases cs)
  case (CChar c)
  assume "cs_ink cs" "isspace x"
  with CChar show ?thesis
    by (auto dest: arg_cong [where f = isspace] simp: isspace_lower_char)
next
  case (COneOf w)
  assume "cs_ink cs" "isspace x"
  with COneOf show ?thesis
    by (auto simp: lower_def dest: arg_cong [where f = isspace] simp: isspace_lower_char)
qed (auto simp: isword_not_space)

lemma lit_match_ink:
  assumes "lit_match ic w a" "\<forall>c\<in>set a. isspace c"
  shows "\<forall>c\<in>set w. isspace c"
proof
  fix c assume c: "c \<in> set w"
  show "isspace c"
  proof (cases ic)
    case True
    with assms(1) have "set (lower w) \<subseteq> set (lower a)"
      by (auto simp: lit_match_def dest: set_mono_prefix)
    with c obtain x where "x \<in> set a" "lower_char c = lower_char x"
      by (auto simp: lower_def)
    with assms(2) have "isspace (lower_char c)" by (simp add: isspace_lower_char)
    then show ?thesis by (simp add: isspace_lower_char)
  next
    case False
    with assms(1) have "set w \<subseteq> set a"
      by (auto simp: lit_match_def dest: set_mono_prefix)
    with c assms(2) show ?thesis by blast
  qed
qed

lemma star_suffix:
  "(b', a', g') \<in> set (star ic cs (b, a, g)) \<Longrightarrow>
     \<exists>w. a = w @ a' \<and> b' = rev w @ b \<and> g' = g \<and> (\<forall>c\<in>set w. in_cset ic cs c)"
proof (induction a arbitrary: b)
  case Nil
  then show ?case by simp
next
  case (Cons x a)
  show ?case
  proof (cases "(b', a', g') = (b, x # a, g)")
    case True
    then show ?thesis by simp
  next
    case False
    with Cons.prems have i: "in_cset ic cs x" and m: "(b', a', g') \<in> set (star ic cs (x # b, a, g))"
      by (auto split: if_splits)
    from Cons.IH [OF m] obtain w where "a = w @ a'" "b' = rev w @ x # b" "g' = g"
      "\<forall>c\<in>set w. in_cset ic cs c" by blast
    with i have "x # a = (x # w) @ a' \<and> b' = rev (x # w) @ b \<and> g' = g \<and>
       (\<forall>c\<in>set (x # w). in_cset ic cs c)" by simp
    then show ?thesis by blast
  qed
qed

lemma lazy_star_suffix:
  "(b', a', g') \<in> set (lazy_star ic cs (b, a, g)) \<Longrightarrow>
     \<exists>w. a = w @ a' \<and> b' = rev w @ b \<and> g' = g \<and> (\<forall>c\<in>set w. in_cset ic cs c)"
proof (induction a arbitrary: b)
  case Nil
  then show ?case by simp
next
  case (Cons x a)
  show ?case
  proof (cases "(b', a', g') = (b, x # a, g)")
    case True
    then show ?thesis by simp
  next
    case False
    with Cons.prems have i: "in_cset ic cs x" and m: "(b', a', g') \<in> set (lazy_star ic cs (x # b, a, g))"
      by (auto split: if_splits)
    from Cons.IH [OF m] obtain w where "a = w @ a'" "b' = rev w @ x # b" "g' = g"
      "\<forall>c\<in>set w. in_cset ic cs c" by blast
    with i have "x # a = (x # w) @ a' \<and> b' = rev (x # w) @ b \<and> g' = g \<and>
       (\<forall>c\<in>set (x # w). in_cset ic cs c)" by simp
    then show ?thesis by blast
  qed
qed

lemma step_suffix:
  "(b', a', g') \<in> set (step ic cs (b, a, g)) \<Longrightarrow>
     \<exists>x. a = x # a' \<and> b' = x # b \<and> g' = g \<and> in_cset ic cs x"
  by (cases a) (auto split: if_splits)

lemma ms_suffix:
  "(b', a', g') \<in> set (ms ic r (b, a, g)) \<Longrightarrow> \<exists>w. a = w @ a' \<and> b' = rev w @ b"
proof (induction r arbitrary: b a g b' a' g')
  case (Lit w)
  then have "a = take (length w) a @ a' \<and> b' = rev (take (length w) a) @ b"
    by (auto split: if_splits)
  then show ?case by blast
next
  case (Atom cs)
  then show ?case by (auto dest!: step_suffix)
next
  case (Seq r1 r2)
  from Seq.prems obtain b1 a1 g1 where 1: "(b1, a1, g1) \<in> set (ms ic r1 (b, a, g))"
    and 2: "(b', a', g') \<in> set (ms ic r2 (b1, a1, g1))" by auto
  from Seq.IH(1) [OF 1] obtain w1 where "a = w1 @ a1" "b1 = rev w1 @ b" by blast
  moreover from Seq.IH(2) [OF 2] obtain w2 where "a1 = w2 @ a'" "b' = rev w2 @ b1" by blast
  ultimately have "a = (w1 @ w2) @ a' \<and> b' = rev (w1 @ w2) @ b" by simp
  then show ?case by blast
next
  case (Alt r1 r2)
  then show ?case by auto
next
  case (Opt r)
  then show ?case by auto
next
  case (Star cs)
  then show ?case by (auto dest!: star_suffix)
next
  case (Plus cs)
  from Plus obtain b1 a1 g1 where 1: "(b1, a1, g1) \<in> set (step ic cs (b, a, g))"
    and 2: "(b', a', g') \<in> set (star ic cs (b1, a1, g1))" by auto
  from step_suffix [OF 1] obtain x where "a = x # a1" "b1 = x # b" by blast
  moreover from star_suffix [OF 2] obtain w where "a1 = w @ a'" "b' = rev w @ b1" by blast
  ultimately have "a = (x # w) @ a' \<and> b' = rev (x # w) @ b" by simp
  then show ?case by blast
next
  case (LazyStar cs)
  then show ?case by (auto dest!: lazy_star_suffix)
next
  case Bol
  then show ?case by (auto split: if_splits)
next
  case Eot
  then show ?case by (auto split: if_splits)
next
  case (Look r)
  then show ?case by (auto split: if_splits)
next
  case (Grp n r)
  from Grp.prems obtain st where 1: "st \<in> set (ms ic r (b, a, g))" and 2: "(b', a', g') = close_group n b st"
    by auto
  obtain b1 a1 g1 where st: "st = (b1, a1, g1)" by (cases st)
  with 2 have "b' = b1" "a' = a1" by simp_all
  with Grp.IH [of b1 a1 g1 b a g] 1 st show ?case by simp
qed

lemma ms_blank:
  "needs_ink r \<Longrightarrow> \<forall>c\<in>set a. isspace c \<Longrightarrow> ms ic r (b, a, g) = []"
proof (induction r arbitrary: b a g)
  case (Lit w)
  then show ?case using lit_match_ink [of ic w a] by auto
next
  case (Atom cs)
  then show ?case by (cases a) (auto dest: in_cset_ink)
next
  case (Seq r1 r2)
  show ?case
  proof (cases "needs_ink r1")
    case True
    with Seq show ?thesis by simp
  next
    case False
    with Seq.prems have n2: "needs_ink r2" by simp
    have "ms ic r2 st = []" if "st \<in> set (ms ic r1 (b, a, g))" for st
    proof -
      obtain b1 a1 g1 where st: "st = (b1, a1, g1)" by (cases st)
      with that ms_suffix obtain w where "a = w @ a1" by blast
      with Seq.prems(2) have "\<forall>c\<in>set a1. isspace c" by simp
      with Seq.IH(2) [OF n2] st show ?thesis by simp
    qed
    then show ?thesis by simp
  qed
next
  case (Plus cs)
  then show ?case by (cases a) (auto dest: in_cset_ink)
qed simp_all

lemma not_found_blank:
  assumes "needs_ink r" "\<forall>c\<in>set s. isspace c"
  shows "\<not> re_found ic r s"
proof
  assume "re_found ic r s"
  then obtain p q where "s = p @ q" "ms ic r (rev p, q, Map.empty) \<noteq> []"
    by (auto simp: re_found_iff)
  moreover from this assms(2) have "\<forall>c\<in>set q. isspace c" by simp
  ultimately show False using ms_blank [OF assms(1)] by blast
qed

lemma str_in_blank:
  assumes "\<forall>c\<in>set s. isspace c" "\<exists>c\<in>set kw. \<not> isspace c"
  shows "\<not> str_in kw s"
  using assms by (auto simp: str_in_iff)

lemma blank_ts_outcomes:
  assumes "no_content code"
  shows "TypeScriptMetric_outcomes code = [False, False, False, False]"
proof -
  from assms have b: "\<forall>c\<in>set code. isspace c" by (simp add: no_content_iff)
  have "ts_keyword_count code = 0"
    by (simp add: ts_keyword_count_def ts_keywords_def str_in_blank [OF b] isspace_def)
  then have 1: "\<not> has_ts_syntax code" by (simp add: has_ts_syntax_def)
  have 2: "\<not> has_functions code"
    unfolding has_functions_def
    by (rule not_found_blank [OF _ b]) (simp add: re_functions_def isspace_def)
  have 3: "\<not> has_error_handling code"
    unfolding has_error_handling_def
    by (rule not_found_blank [OF _ b]) (simp add: re_error_handling_def isspace_def)
  have 4: "\<not> has_exports code"
    unfolding has_exports_def
    by (rule not_found_blank [OF _ b]) (simp add: re_exports_def isspace_def)
  from 1 2 3 4 show ?thesis by (simp add: TypeScriptMetric_outcomes_def)
qed

lemma str_in_lower_blank:
  assumes "\<forall>c\<in>set s. isspace c" "\<exists>c\<in>set kw. \<not> isspace c"
  shows "\<not> str_in (lower kw) (lower s)"
proof (rule str_in_blank)
  from assms(1) show "\<forall>c\<in>set (lower s). isspace c" by (simp add: lower_def isspace_lower_char)
  from assms(2) show "\<exists>c\<in>set (lower kw). \<not> isspace c" by (simp add: lower_def isspace_lower_char)
qed

lemma blank_doc_outcomes:
  assumes "no_content code"
  shows "TestDocMetric_outcomes code = [False, False, False, False]"
proof -
  from assms have b: "\<forall>c\<in>set code. isspace c" by (simp add: no_content_iff)
  have "test_keyword_count code = 0"
    by (simp add: test_keyword_count_def test_keywords_def str_in_lower_blank [OF b] isspace_def)
  then have 1: "\<not> has_test_content code" by (simp add: has_test_content_def)
  have 2: "\<not> has_test_structure code"
    unfolding has_test_structure_def
    by (rule not_found_blank [OF _ b]) (simp add: re_test_structure_def isspace_def)
  have 3: "\<not> has_headers code"
    unfolding has_headers_def
    by (rule not_found_blank [OF _ b]) (simp add: re_headers_def isspace_def)
  have 4: "\<not> has_structure code"
    unfolding has_structure_def
    by (rule not_found_blank [OF _ b]) (simp add: re_structure_def isspace_def)
  from 1 2 3 4 show ?thesis by (simp add: TestDocMetric_outcomes_def)
qed

lemma one_more_imp:
  assumes "i < 4" "[a0, a1, a2, a3] ! i" "\<not> [b0, b1, b2, b3] ! i"
    and "\<forall>j<4. j \<noteq> i \<longrightarrow> [a0, a1, a2, a3] ! j = [b0, b1, b2, b3] ! j"
  shows "(b0 \<longrightarrow> a0) \<and> (b1 \<longrightarrow> a1) \<and> (b2 \<longrightarrow> a2) \<and> (b3 \<longrightarrow> a3)"
proof -
  from assms(4) have x: "\<And>j. j < 4 \<Longrightarrow> j \<noteq> i \<Longrightarrow> [a0, a1, a2, a3] ! j = [b0, b1, b2, b3] ! j"
    by blast
  from assms(1) consider "i = 0" | "i = 1" | "i = 2" | "i = 3" by linarith
  then show ?thesis
  proof cases
    case 1
    with x [of 1] x [of 2] x [of 3] assms(2) show ?thesis by simp
  next
    case 2
    with x [of 0] x [of 2] x [of 3] assms(2) show ?thesis by simp
  next
    case 3
    with x [of 0] x [of 1] x [of 3] assms(2) show ?thesis by simp
  next
    case 4
    with x [of 0] x [of 1] x [of 2] assms(2) show ?thesis by simp
  qed
qed

lemma ts_score_mono:
  assumes "i < 4" "TypeScriptMetric_outcomes (get_code_output p) ! i"
    "\<not> TypeScriptMetric_outcomes (get_code_output q) ! i"
    "\<forall>j<4. j \<noteq> i \<longrightarrow>
        TypeScriptMetric_outcomes (get_code_output p) ! j = TypeScriptMetric_outcomes (get_code_output q) ! j"
  shows "score (TypeScriptMetric_call q) \<le> score (TypeScriptMetric_call p)"
proof -
  let ?s = "get_code_output p" and ?t = "get_code_output q"
  have np: "\<not> no_content ?s"
  proof
    assume "no_content ?s"
    then have "TypeScriptMetric_outcomes ?s = [False, False, False, False]" by (rule blank_ts_outcomes)
    with assms(1,2) show False
      by (auto simp: less_Suc_eq numeral_eq_Suc)
  qed
  show ?thesis
  proof (cases "no_content ?t")
    case True
    with np show ?thesis
      by (simp add: TypeScriptMetric_call_content metric_call_no_content mean_score_def
          TypeScriptMetric_checks_def)
  next
    case False
    from one_more_imp [OF assms [unfolded TypeScriptMetric_outcomes_def]]
    have "(has_ts_syntax ?t \<longrightarrow> has_ts_syntax ?s) \<and> (has_functions ?t \<longrightarrow> has_functions ?s) \<and>
          (has_error_handling ?t \<longrightarrow> has_error_handling ?s) \<and> (has_exports ?t \<longrightarrow> has_exports ?s)" .
    with np False show ?thesis
      by (simp add: TypeScriptMetric_call_content mean_score_def TypeScriptMetric_checks_def)
  qed
qed

lemma doc_score_mono:
  assumes "i < 4" "TestDocMetric_outcomes (get_code_output p) ! i"
    "\<not> TestDocMetric_outcomes (get_code_output q) ! i"
    "\<forall>j<4. j \<noteq> i \<longrightarrow>
        TestDocMetric_outcomes (get_code_output p) ! j = TestDocMetric_outcomes (get_code_output q) ! j"
  shows "score (TestDocMetric_call q) \<le> score (TestDocMetric_call p)"
proof -
  let ?s = "get_code_output p" and ?t = "get_code_output q"
  have np: "\<not> no_content ?s"
  proof
    assume "no_content ?s"
    then have "TestDocMetric_outcomes ?s = [False, False, False, False]" by (rule blank_doc_outcomes)
    with assms(1,2) show False
      by (auto simp: less_Suc_eq numeral_eq_Suc)
  qed
  show ?thesis
  proof (cases "no_content ?t")
    case True
    with np show ?thesis
      by (simp add: TestDocMetric_call_content metric_call_no_content mean_score_def
          TestDocMetric_checks_def)
  next
    case False
    from one_more_imp [OF assms [unfolded TestDocMetric_outcomes_def]]
    have "(has_test_structure ?t \<longrightarrow> has_test_structure ?s) \<and> (has_test_content ?t \<longrightarrow> has_test_content ?s) \<and>
          (has_headers ?t \<longrightarrow> has_headers ?s) \<and> (has_structure ?t \<longrightarrow> has_structure ?s)" .
    with np False show ?thesis
      by (simp add: TestDocMetric_call_content mean_score_def TestDocMetric_checks_def)
  qed
qed

text \<open>
  Claim C8: in each variant the score is monotonic non-decreasing in the satisfaction of
  any single check: for any two texts whose four check outcomes agree except that one
  check is satisfied in the first and unsatisfied in the second, the score of the first
  is greater than or equal to the score of the second. (The texts are arbitrary; a
  whitespace-only text satisfies no check.)
\<close>

theorem C8_score_monotone:
  "((\<exists>i<4. TypeScriptMetric_outcomes (get_code_output p) ! i \<and>
            \<not> TypeScriptMetric_outcomes (get_code_output q) ! i \<and>
            (\<forall>j<4. j \<noteq> i \<longrightarrow> TypeScriptMetric_outcomes (get_code_output p) ! j
                                = TypeScriptMetric_outcomes (get_code_output q) ! j))
      \<longrightarrow> score (TypeScriptMetric_call q) \<le> score (TypeScriptMetric_call p)) \<and>
   ((\<exists>i<4. TestDocMetric_outcomes (get_code_output p) ! i \<and>
            \<not> TestDocMetric_outcomes (get_code_output q) ! i \<and>
            (\<forall>j<4. j \<noteq> i \<longrightarrow> TestDocMetric_outcomes (get_code_output p) ! j
                                = TestDocMetric_outcomes (get_code_output q) ! j))
      \<longrightarrow> score (TestDocMetric_call q) \<le> score (TestDocMetric_call p))"
  using ts_score_mono [of _ p q] doc_score_mono [of _ p q] by blast


theorem C8_score_monotone_witness:
  "TypeScriptMetric_outcomes ''class A'' = [False, True, False, False] \<and>
   TypeScriptMetric_outcomes ''x'' = [False, False, False, False] \<and>
   score (TypeScriptMetric_call \<lparr>code_output = Some ''x'', doc_output = None, reasoning = []\<rparr>)
     \<le> score (TypeScriptMetric_call \<lparr>code_output = Some ''class A'', doc_output = None, reasoning = []\<rparr>) \<and>
   TestDocMetric_outcomes ''# a'' = [False, False, True, False] \<and>
   TestDocMetric_outcomes ''x'' = [False, False, False, False] \<and>
   score (TestDocMetric_call \<lparr>code_output = Some ''x'', doc_output = None, reasoning = []\<rparr>)
     \<le> score (TestDocMetric_call \<lparr>code_output = Some ''# a'', doc_output = None, reasoning = []\<rparr>)"
proof -
  let ?p = "\<lparr>code_output = Some ''class A'', doc_output = None, reasoning = []\<rparr>"
  let ?p' = "\<lparr>code_output = Some ''# a'', doc_output = None, reasoning = []\<rparr>"
  let ?q = "\<lparr>code_output = Some ''x'', doc_output = None, reasoning = []\<rparr>"
  have c: "get_code_output ?p = ''class A''" "get_code_output ?p' = ''# a''" "get_code_output ?q = ''x''"
    by (simp_all add: get_code_output_def)
  have 1: "TypeScriptMetric_outcomes ''class A'' = [False, True, False, False]"
    by (simp add: TypeScriptMetric_outcomes_def has_ts_syntax_def ts_keyword_count_def
        ts_keywords_def has_functions_def has_error_handling_def has_exports_def re_found_def
        re_search_def re_functions_def re_error_handling_def re_exports_def lit_match_def
        isspace_def isword_def isalnum_def)
  have 2: "TypeScriptMetric_outcomes ''x'' = [False, False, False, False]"
    by (simp add: TypeScriptMetric_outcomes_def has_ts_syntax_def ts_keyword_count_def
        ts_keywords_def has_functions_def has_error_handling_def has_exports_def re_found_def
        re_search_def re_functions_def re_error_handling_def re_exports_def lit_match_def)
  have 3: "TestDocMetric_outcomes ''# a'' = [False, False, True, False]"
    by (simp add: TestDocMetric_outcomes_def has_test_content_def test_keyword_count_def
        test_keywords_def has_test_structure_def has_headers_def has_structure_def re_found_def
        re_search_def re_test_structure_def re_headers_def re_structure_def lit_match_def
        lower_def lower_char_def isspace_def isword_def isalnum_def)
  have 4: "TestDocMetric_outcomes ''x'' = [False, False, False, False]"
    by (simp add: TestDocMetric_outcomes_def has_test_content_def test_keyword_count_def
        test_keywords_def has_test_structure_def has_headers_def has_structure_def re_found_def
        re_search_def re_test_structure_def re_headers_def re_structure_def lit_match_def
        lower_def lower_char_def)
  have j1: "[False, True, False, False] ! j = [False, False, False, False] ! j"
    if "j < 4" "j \<noteq> 1" for j :: nat
  proof -
    from that have "j = 0 \<or> j = 2 \<or> j = 3" by linarith
    then show ?thesis by auto
  qed
  have j2: "[False, False, True, False] ! j = [False, False, False, False] ! j"
    if "j < 4" "j \<noteq> 2" for j :: nat
  proof -
    from that have "j = 0 \<or> j = 1 \<or> j = 3" by linarith
    then show ?thesis by auto
  qed
  have h1: "\<exists>i<4. TypeScriptMetric_outcomes (get_code_output ?p) ! i \<and>
            \<not> TypeScriptMetric_outcomes (get_code_output ?q) ! i \<and>
            (\<forall>j<4. j \<noteq> i \<longrightarrow> TypeScriptMetric_outcomes (get_code_output ?p) ! j
                                = TypeScriptMetric_outcomes (get_code_output ?q) ! j)"
    unfolding c 1 2 using j1 by (intro exI [of _ 1]) simp
  have h2: "\<exists>i<4. TestDocMetric_outcomes (get_code_output ?p') ! i \<and>
            \<not> TestDocMetric_outcomes (get_code_output ?q) ! i \<and>
            (\<forall>j<4. j \<noteq> i \<longrightarrow> TestDocMetric_outcomes (get_code_output ?p') ! j
                                = TestDocMetric_outcomes (get_code_output ?q) ! j)"
    unfolding c 3 4 using j2 by (intro exI [of _ 2]) simp
  from C8_score_monotone [of ?p ?q] h1 C8_score_monotone [of ?p' ?q] h2 1 2 3 4
  show ?thesis by blast
qed

section \<open>Properties of the reflection model\<close>

lemma lit_suffix:
  "(b', a', g') \<in> set (ms False (Lit w) (b, a, g)) \<Longrightarrow> a = w @ a' \<and> b' = rev w @ b \<and> g' = g"
  by (auto simp: lit_match_def prefix_def split: if_splits)

lemma lit_mem: "(rev w @ b, a', g) \<in> set (ms False (Lit w) (b, w @ a', g))"
  by (simp add: lit_match_def)

lemma seq_mem:
  "st1 \<in> set (ms ic r1 st) \<Longrightarrow> st2 \<in> set (ms ic r2 st1) \<Longrightarrow> st2 \<in> set (ms ic (Seq r1 r2) st)"
  by auto

lemma seq_memD:
  "st2 \<in> set (ms ic (Seq r1 r2) st) \<Longrightarrow> \<exists>st1. st1 \<in> set (ms ic r1 st) \<and> st2 \<in> set (ms ic r2 st1)"
  by auto

lemma star_self: "(b, a, g) \<in> set (star ic cs (b, a, g))"
  by (cases a) simp_all

lemma star_mem:
  "\<forall>c\<in>set w. in_cset ic cs c \<Longrightarrow> (rev w @ b, rest, g) \<in> set (star ic cs (b, w @ rest, g))"
proof (induction w arbitrary: b)
  case Nil
  then show ?case by (simp add: star_self)
next
  case (Cons x w)
  then have "(rev w @ x # b, rest, g) \<in> set (star ic cs (x # b, w @ rest, g))" by simp
  with Cons.prems show ?case by simp
qed

lemma search_from_Some:
  "search_from ic r b a = Some (b0, st) \<Longrightarrow>
     \<exists>p q. a = p @ q \<and> b0 = rev p @ b \<and> st \<in> set (ms ic r (b0, q, Map.empty))"
proof (induction a arbitrary: b)
  case Nil
  then show ?case by (auto split: list.splits)
next
  case (Cons x a)
  show ?case
  proof (cases "ms ic r (b, x # a, Map.empty)")
    case Nil
    with Cons.prems have "search_from ic r (x # b) a = Some (b0, st)" by simp
    from Cons.IH [OF this] obtain p q where "a = p @ q" "b0 = rev p @ x # b"
      "st \<in> set (ms ic r (b0, q, Map.empty))" by blast
    then have "x # a = (x # p) @ q \<and> b0 = rev (x # p) @ b \<and> st \<in> set (ms ic r (b0, q, Map.empty))"
      by simp
    then show ?thesis by blast
  next
    case (Cons st' sts)
    with Cons.prems have "b0 = b" "st = st'" by simp_all
    with Cons have "x # a = [] @ (x # a) \<and> b0 = rev [] @ b \<and> st \<in> set (ms ic r (b0, x # a, Map.empty))"
      by simp
    then show ?thesis by blast
  qed
qed

lemma re_json_sound:
  assumes "(b', a', g') \<in> set (ms False re_json (b, a, g))"
  shows "\<exists>u v. a = ''{'' @ u @ ''\"proposed_instruction\"'' @ v @ ''}'' @ a' \<and>
               b' = rev (''{'' @ u @ ''\"proposed_instruction\"'' @ v @ ''}'') @ b \<and>
               no_brace u \<and> no_brace v"
proof -
  let ?N = "CNoneOf ''{}''"
  let ?key = "''\"proposed_instruction\"''"
  from assms have "(b', a', g') \<in> set (ms False (Seq (Lit ''{'') (Seq (Star ?N)
      (Seq (Lit ?key) (Seq (Star ?N) (Lit ''}''))))) (b, a, g))"
    by (simp only: re_json_def seqs.simps)
  then obtain s1 s2 s3 s4 where
    1: "s1 \<in> set (ms False (Lit ''{'') (b, a, g))" and
    2: "s2 \<in> set (ms False (Star ?N) s1)" and
    3: "s3 \<in> set (ms False (Lit ?key) s2)" and
    4: "s4 \<in> set (ms False (Star ?N) s3)" and
    5: "(b', a', g') \<in> set (ms False (Lit ''}'') s4)"
    by (blast dest!: seq_memD)
  obtain b1 a1 g1 where s1: "s1 = (b1, a1, g1)" by (cases s1)
  obtain b2 a2 g2 where s2: "s2 = (b2, a2, g2)" by (cases s2)
  obtain b3 a3 g3 where s3: "s3 = (b3, a3, g3)" by (cases s3)
  obtain b4 a4 g4 where s4: "s4 = (b4, a4, g4)" by (cases s4)
  from lit_suffix [OF 1 [unfolded s1]]
  have e1: "a = ''{'' @ a1" "b1 = rev ''{'' @ b" by blast+
  from 2 have "(b2, a2, g2) \<in> set (star False ?N (b1, a1, g1))"
    by (simp only: s1 s2 ms.simps)
  from star_suffix [OF this]
  obtain u where e2: "a1 = u @ a2" "b2 = rev u @ b1" "\<forall>c\<in>set u. in_cset False ?N c"
    by blast
  from lit_suffix [OF 3 [unfolded s2 s3]]
  have e3: "a2 = ?key @ a3" "b3 = rev ?key @ b2" by blast+
  from 4 have "(b4, a4, g4) \<in> set (star False ?N (b3, a3, g3))"
    by (simp only: s3 s4 ms.simps)
  from star_suffix [OF this]
  obtain v where e4: "a3 = v @ a4" "b4 = rev v @ b3" "\<forall>c\<in>set v. in_cset False ?N c"
    by blast
  from lit_suffix [OF 5 [unfolded s4]]
  have e5: "a4 = ''}'' @ a'" "b' = rev ''}'' @ b4" by blast+
  from e2(3) e4(3) have "no_brace u" "no_brace v" by (auto simp: no_brace_def)
  moreover have "a = ''{'' @ u @ ?key @ v @ ''}'' @ a'"
    by (simp only: e1 e2 e3 e4 e5)
  moreover have "b' = rev (''{'' @ u @ ?key @ v @ ''}'') @ b"
    by (simp only: e1 e2 e3 e4 e5 rev_append append_assoc)
  ultimately show ?thesis by blast
qed

lemma re_json_complete:
  assumes "no_brace u" "no_brace v"
  shows "ms False re_json (b, ''{'' @ u @ ''\"proposed_instruction\"'' @ v @ ''}'' @ q, g) \<noteq> []"
proof -
  let ?N = "CNoneOf ''{}''"
  let ?key = "''\"proposed_instruction\"''"
  from assms have iu: "\<forall>c\<in>set u. in_cset False ?N c" and iv: "\<forall>c\<in>set v. in_cset False ?N c"
    by (auto simp: no_brace_def)
  have 5: "(rev ''}'' @ rev v @ rev ?key @ rev u @ rev ''{'' @ b, q, g)
           \<in> set (ms False (Lit ''}'') (rev v @ rev ?key @ rev u @ rev ''{'' @ b, ''}'' @ q, g))"
    by (rule lit_mem)
  have 4: "(rev v @ rev ?key @ rev u @ rev ''{'' @ b, ''}'' @ q, g)
           \<in> set (ms False (Star ?N) (rev ?key @ rev u @ rev ''{'' @ b, v @ ''}'' @ q, g))"
    using star_mem [OF iv] by simp
  have 3: "(rev ?key @ rev u @ rev ''{'' @ b, v @ ''}'' @ q, g)
           \<in> set (ms False (Lit ?key) (rev u @ rev ''{'' @ b, ?key @ v @ ''}'' @ q, g))"
    by (rule lit_mem)
  have 2: "(rev u @ rev ''{'' @ b, ?key @ v @ ''}'' @ q, g)
           \<in> set (ms False (Star ?N) (rev ''{'' @ b, u @ ?key @ v @ ''}'' @ q, g))"
    using star_mem [OF iu] by simp
  have 1: "(rev ''{'' @ b, u @ ?key @ v @ ''}'' @ q, g)
           \<in> set (ms False (Lit ''{'') (b, ''{'' @ u @ ?key @ v @ ''}'' @ q, g))"
    by (rule lit_mem)
  have "(rev ''}'' @ rev v @ rev ?key @ rev u @ rev ''{'' @ b, q, g)
        \<in> set (ms False (Seq (Lit ''{'') (Seq (Star ?N) (Seq (Lit ?key) (Seq (Star ?N) (Lit ''}'')))))
               (b, ''{'' @ u @ ?key @ v @ ''}'' @ q, g))"
    by (rule seq_mem [OF 1] seq_mem [OF 2] seq_mem [OF 3] seq_mem [OF 4] 5)+
  then have "(rev ''}'' @ rev v @ rev ?key @ rev u @ rev ''{'' @ b, q, g)
        \<in> set (ms False re_json (b, ''{'' @ u @ ?key @ v @ ''}'' @ q, g))"
    by (simp only: re_json_def seqs.simps)
  then show ?thesis by (metis empty_iff list.set(1))
qed


lemma group0_rev: "group0 (b, (rev x @ b, a, g)) = x"
  by simp

lemma re_json_search_Some:
  assumes "re_search False re_json c = Some m"
  shows "\<exists>p u v q. c = p @ (''{'' @ u @ ''\"proposed_instruction\"'' @ v @ ''}'') @ q \<and>
           no_brace u \<and> no_brace v \<and> group0 m = ''{'' @ u @ ''\"proposed_instruction\"'' @ v @ ''}''"
proof -
  obtain b0 b' a' g' where m: "m = (b0, (b', a', g'))" by (cases m) auto
  from assms have "search_from False re_json [] c = Some (b0, (b', a', g'))"
    by (simp add: re_search_def m)
  from search_from_Some [OF this] obtain p q' where
    c: "c = p @ q'" and b0: "b0 = rev p" and
    st: "(b', a', g') \<in> set (ms False re_json (b0, q', Map.empty))" by auto
  from re_json_sound [OF st] obtain u v where
    q': "q' = ''{'' @ u @ ''\"proposed_instruction\"'' @ v @ ''}'' @ a'" and
    b': "b' = rev (''{'' @ u @ ''\"proposed_instruction\"'' @ v @ ''}'') @ b0" and
    nb: "no_brace u" "no_brace v" by blast
  have "group0 m = ''{'' @ u @ ''\"proposed_instruction\"'' @ v @ ''}''"
    unfolding m b' by (rule group0_rev)
  moreover have "c = p @ (''{'' @ u @ ''\"proposed_instruction\"'' @ v @ ''}'') @ a'"
    by (simp add: c q')
  ultimately show ?thesis using nb by blast
qed

lemma re_json_search_None:
  assumes "re_search False re_json c = None"
  shows "\<not> (\<exists>p u v q. c = p @ (''{'' @ u @ ''\"proposed_instruction\"'' @ v @ ''}'') @ q \<and>
             no_brace u \<and> no_brace v)"
proof
  assume "\<exists>p u v q. c = p @ (''{'' @ u @ ''\"proposed_instruction\"'' @ v @ ''}'') @ q \<and>
             no_brace u \<and> no_brace v"
  then obtain p u v q where c: "c = p @ (''{'' @ u @ ''\"proposed_instruction\"'' @ v @ ''}'') @ q"
    and nb: "no_brace u" "no_brace v" by blast
  from re_json_complete [OF nb, of "rev p" q Map.empty]
  have "re_found False re_json (p @ ''{'' @ u @ ''\"proposed_instruction\"'' @ v @ ''}'' @ q)"
    by (rule re_found_at)
  with assms c show False by (simp add: re_found_def)
qed

lemma dumps_proposal_fields:
  "str_in ''\"proposed_instruction\"'' (dumps_proposal x) \<and>
   str_in ''\"proposed_prefix_for_output_field\"'' (dumps_proposal x)"
proof -
  have "dumps_proposal x = ''{'' @ ''\"proposed_instruction\"'' @ ('': '' @ json_string x @
     '', \"proposed_prefix_for_output_field\": \"\"}'')"
    by (simp add: dumps_proposal_def)
  then have 1: "str_in ''\"proposed_instruction\"'' (dumps_proposal x)"
    unfolding str_in_iff by blast
  have "dumps_proposal x = (''{\"proposed_instruction\": '' @ json_string x @ '', '') @
     ''\"proposed_prefix_for_output_field\"'' @ '': \"\"}''"
    by (simp add: dumps_proposal_def)
  then have 2: "str_in ''\"proposed_prefix_for_output_field\"'' (dumps_proposal x)"
    unfolding str_in_iff by blast
  from 1 2 show ?thesis ..
qed

lemma dumps_proposal_nonempty: "dumps_proposal x \<noteq> []"
  by (simp add: dumps_proposal_def)

text \<open>
  Claim C9, as stated: for every reflection request \<open>forward\<close> returns a singleton list
  whose element contains a JSON object with the fields \<open>proposed_instruction\<close> and
  \<open>proposed_prefix_for_output_field\<close>. It fails when the output of the call holds an
  object with \<open>proposed_instruction\<close> alone: that object is returned as it is, and the
  second field occurs nowhere in the result.
\<close>

theorem C9_missing_prefix_field_counterexample:
  "is_copro_request (prompt_str_of (Some ''Propose an instruction'') None) \<and>
   CLIReflectionLM_forward (\<lambda>args t. Inr (''{\"proposed_instruction\": \"x\"}'', [])) None
       \<lparr>binary_path = ''gemini'', timeout = 120\<rparr> (Some ''Propose an instruction'') None
     = [''{\"proposed_instruction\": \"x\"}''] \<and>
   \<not> str_in ''proposed_prefix_for_output_field'' ''{\"proposed_instruction\": \"x\"}''"
proof -
  have 1: "is_copro_request (prompt_str_of (Some ''Propose an instruction'') None)"
    by (simp add: is_copro_request_def prompt_str_of_def lower_def lower_char_def)
  have s: "strip ''{\"proposed_instruction\": \"x\"}'' = ''{\"proposed_instruction\": \"x\"}''"
    by (simp add: strip_def isspace_def)
  have 2: "response_content True ''{\"proposed_instruction\": \"x\"}'' = ''{\"proposed_instruction\": \"x\"}''"
    unfolding response_content_def s
    by (simp add: re_search_def re_json_def lit_match_def)
  have 3: "\<not> str_in ''proposed_prefix_for_output_field'' ''{\"proposed_instruction\": \"x\"}''"
    by simp
  from 1 2 3 show ?thesis
    by (simp add: CLIReflectionLM_forward_def)
qed

text \<open>
  Claim C9, amended: for every reflection request \<open>forward\<close> returns a singleton list
  whose element contains the key \<open>"proposed_instruction"\<close>. When the invocation raises,
  or the output is empty after stripping, or the stripped output holds no
  brace-delimited span without inner braces that contains \<open>"proposed_instruction"\<close>, the
  element is a synthesized JSON object with both fields \<open>proposed_instruction\<close> and
  \<open>proposed_prefix_for_output_field\<close> (with a fixed instruction in the first two cases
  and the first 2000 characters of the stripped output in the third). Otherwise the
  element is such a span of the output, returned verbatim; it need not carry
  \<open>proposed_prefix_for_output_field\<close>.
\<close>

theorem C9_reflection_response:
  assumes "is_copro_request (prompt_str_of prompt messages)"
  shows "\<exists>c. CLIReflectionLM_forward popen model_env lm prompt messages = [c] \<and>
     str_in ''\"proposed_instruction\"'' c \<and>
     (case popen (cli_args lm model_env (prompt_str_of prompt messages)) (timeout lm) of
        Inl e \<Rightarrow> c = dumps_proposal ''Follow the task requirements.''
      | Inr (out, err) \<Rightarrow>
          if strip out = [] then c = dumps_proposal ''Follow the task requirements carefully.''
          else if \<exists>p u v q. strip out = p @ (''{'' @ u @ ''\"proposed_instruction\"'' @ v @ ''}'') @ q
                    \<and> no_brace u \<and> no_brace v
          then \<exists>p u v q. strip out = p @ (''{'' @ u @ ''\"proposed_instruction\"'' @ v @ ''}'') @ q
                    \<and> no_brace u \<and> no_brace v
                    \<and> c = ''{'' @ u @ ''\"proposed_instruction\"'' @ v @ ''}''
          else c = dumps_proposal (take 2000 (strip out))) \<and>
     (\<forall>x. c = dumps_proposal x \<longrightarrow> str_in ''\"proposed_prefix_for_output_field\"'' c)"
proof (cases "popen (cli_args lm model_env (prompt_str_of prompt messages)) (timeout lm)")
  case (Inl e)
  then have "CLIReflectionLM_forward popen model_env lm prompt messages
      = [dumps_proposal ''Follow the task requirements.'']"
    by (simp add: CLIReflectionLM_forward_def Let_def)
  with Inl dumps_proposal_fields show ?thesis by simp
next
  case (Inr oe)
  obtain out err where oe: "oe = (out, err)" by (cases oe)
  define D where "D \<longleftrightarrow>
    (\<exists>p u v q. strip out = p @ (''{'' @ u @ ''\"proposed_instruction\"'' @ v @ ''}'') @ q
        \<and> no_brace u \<and> no_brace v)"
  define E where "E c \<longleftrightarrow>
    (\<exists>p u v q. strip out = p @ (''{'' @ u @ ''\"proposed_instruction\"'' @ v @ ''}'') @ q
        \<and> no_brace u \<and> no_brace v \<and> c = ''{'' @ u @ ''\"proposed_instruction\"'' @ v @ ''}'')" for c
  let ?c = "response_content True out"
  from Inr oe assms have f: "CLIReflectionLM_forward popen model_env lm prompt messages = [?c]"
    by (simp add: CLIReflectionLM_forward_def Let_def)
  have fields: "\<forall>x. ?c = dumps_proposal x \<longrightarrow> str_in ''\"proposed_prefix_for_output_field\"'' ?c"
    using dumps_proposal_fields by simp
  have body: "str_in ''\"proposed_instruction\"'' ?c \<and>
     (if strip out = [] then ?c = dumps_proposal ''Follow the task requirements carefully.''
      else if D then E ?c else ?c = dumps_proposal (take 2000 (strip out)))"
  proof (cases "strip out = []")
    case True
    then have "?c = dumps_proposal ''Follow the task requirements carefully.''"
      by (simp add: response_content_def)
    with True dumps_proposal_fields show ?thesis by simp
  next
    case False
    show ?thesis
    proof (cases "re_search False re_json (strip out)")
      case None
      with False have c: "?c = dumps_proposal (take 2000 (strip out))"
        by (simp add: response_content_def Let_def dumps_proposal_nonempty)
      from re_json_search_None [OF None] have "\<not> D" unfolding D_def .
      with False c dumps_proposal_fields show ?thesis by simp
    next
      case (Some m)
      from re_json_search_Some [OF Some] obtain p u v q where
        d: "strip out = p @ (''{'' @ u @ ''\"proposed_instruction\"'' @ v @ ''}'') @ q"
        "no_brace u" "no_brace v" and g: "group0 m = ''{'' @ u @ ''\"proposed_instruction\"'' @ v @ ''}''"
        by blast
      from Some False g have c: "?c = ''{'' @ u @ ''\"proposed_instruction\"'' @ v @ ''}''"
        by (simp add: response_content_def Let_def)
      have "?c = (''{'' @ u) @ ''\"proposed_instruction\"'' @ (v @ ''}'')"
        by (simp add: c)
      then have k: "str_in ''\"proposed_instruction\"'' ?c"
        unfolding str_in_iff by blast
      from d c have e: "E ?c" unfolding E_def by blast
      from d have "D" unfolding D_def by blast
      with False k e show ?thesis by simp
    qed
  qed
  from f body fields have "\<exists>c. CLIReflectionLM_forward popen model_env lm prompt messages = [c] \<and>
     str_in ''\"proposed_instruction\"'' c \<and>
     (if strip out = [] then c = dumps_proposal ''Follow the task requirements carefully.''
      else if D then E c else c = dumps_proposal (take 2000 (strip out))) \<and>
     (\<forall>x. c = dumps_proposal x \<longrightarrow> str_in ''\"proposed_prefix_for_output_field\"'' c)"
    by blast
  from this [unfolded D_def E_def] show ?thesis
    by (simp only: Inr oe sum.case prod.case)
qed


theorem C9_reflection_response_witness:
  "is_copro_request (prompt_str_of (Some ''Propose an instruction'') None) \<and>
   CLIReflectionLM_forward (\<lambda>args t. Inl (TimeoutExpired ''timed out after 120 seconds'')) None
       \<lparr>binary_path = ''gemini'', timeout = 120\<rparr> (Some ''Propose an instruction'') None
     = [''{\"proposed_instruction\": \"Follow the task requirements.\", \"proposed_prefix_for_output_field\": \"\"}''] \<and>
   CLIReflectionLM_forward (\<lambda>args t. Inr (''  '', [])) None
       \<lparr>binary_path = ''gemini'', timeout = 120\<rparr> (Some ''Propose an instruction'') None
     = [''{\"proposed_instruction\": \"Follow the task requirements carefully.\", \"proposed_prefix_for_output_field\": \"\"}'']"
proof -
  let ?lm = "\<lparr>binary_path = ''gemini'', timeout = 120\<rparr>"
  let ?raise = "\<lambda>(args :: string list) (t :: nat).
     Inl (TimeoutExpired ''timed out after 120 seconds'') :: py_exception + string \<times> string"
  let ?blank = "\<lambda>(args :: string list) (t :: nat). Inr (''  '', []) :: py_exception + string \<times> string"
  have 1: "is_copro_request (prompt_str_of (Some ''Propose an instruction'') None)"
    by (simp add: is_copro_request_def prompt_str_of_def lower_def lower_char_def)
  have d1: "dumps_proposal ''Follow the task requirements.'' =
     ''{\"proposed_instruction\": \"Follow the task requirements.\", \"proposed_prefix_for_output_field\": \"\"}''"
    by (simp add: dumps_proposal_def json_string_def json_escape_char_def)
  have d2: "dumps_proposal ''Follow the task requirements carefully.'' =
     ''{\"proposed_instruction\": \"Follow the task requirements carefully.\", \"proposed_prefix_for_output_field\": \"\"}''"
    by (simp add: dumps_proposal_def json_string_def json_escape_char_def)
  have s: "strip ''  '' = []"
    by (simp add: strip_def isspace_def)
  from C9_reflection_response [OF 1, of ?raise None ?lm]
  have 2: "CLIReflectionLM_forward ?raise None ?lm (Some ''Propose an instruction'') None
     = [dumps_proposal ''Follow the task requirements.'']"
    by auto
  from C9_reflection_response [OF 1, of ?blank None ?lm]
  have 3: "CLIReflectionLM_forward ?blank None ?lm (Some ''Propose an instruction'') None
     = [dumps_proposal ''Follow the task requirements carefully.'']"
    by (auto simp: s)
  from 1 2 3 show ?thesis
    unfolding d1 d2 by blast
qed

section \<open>The post-processing patterns against their direct statement\<close>

lemma lazy_then_lit_None:
  "after_first f t = None \<Longrightarrow>
   concat (map (ms False (Lit f))
      (map (close_group n b0) (lazy_star False CAny (rev w @ b0, t, g)))) = []"
proof (induction t arbitrary: w)
  case Nil
  then show ?case by (simp add: lit_match_def split: if_splits)
next
  case (Cons x t)
  from Cons.prems have np: "\<not> prefix f (x # t)" and a: "after_first f t = None"
    by (simp_all split: if_splits)
  from Cons.IH [OF a, of "w @ [x]"] np show ?case
    by (simp add: lit_match_def fun_eq_iff)
qed

lemma lazy_then_lit_Some:
  "after_first f t = Some rest \<Longrightarrow>
   \<exists>b' sts. concat (map (ms False (Lit f))
      (map (close_group n b0) (lazy_star False CAny (rev w @ b0, t, g)))) =
     (b', rest, g(n \<mapsto> w @ before_first f t)) # sts"
proof (induction t arbitrary: w)
  case Nil
  then show ?case by (simp add: lit_match_def fun_eq_iff split: if_splits)
next
  case (Cons x t)
  show ?case
  proof (cases "prefix f (x # t)")
    case True
    with Cons.prems have "rest = drop (length f) (x # t)" by simp
    with True show ?thesis by (simp add: lit_match_def fun_eq_iff)
  next
    case False
    with Cons.prems have a: "after_first f t = Some rest" by simp
    from Cons.IH [OF a, of "w @ [x]"] False show ?thesis
      by (simp add: lit_match_def fun_eq_iff)
  qed
qed

text \<open>The same for the lookahead that ends the reasoning section.\<close>

lemma lazy_then_look:
  "\<exists>b' a' sts. concat (map (ms False (Look (Alt (Lit ''##'') Eot)))
      (map (close_group n b0) (lazy_star False CAny (rev w @ b0, t, g)))) =
     (b', a', g(n \<mapsto> w @ lazy_cut t)) # sts"
proof (induction t arbitrary: w)
  case Nil
  show ?case by (simp add: lit_match_def fun_eq_iff)
next
  case (Cons x t)
  show ?case
  proof (cases "prefix ''##'' (x # t) \<or> x # t = ''\<newline>''")
    case True
    then show ?thesis by (auto simp: lit_match_def fun_eq_iff)
  next
    case False
    with Cons.IH [of "w @ [x]"] show ?thesis
      by (auto simp: lit_match_def fun_eq_iff)
  qed
qed


lemma body_None:
  "after_first ''```'' t = None \<Longrightarrow>
     ms False (Seq (Grp 1 (LazyStar CAny)) (Lit ''```'')) (b, t, g) = []"
  using lazy_then_lit_None [of "''```''" t 1 b "[]" g] by simp

lemma body_Some:
  "after_first ''```'' t = Some rest \<Longrightarrow>
     \<exists>b' sts. ms False (Seq (Grp 1 (LazyStar CAny)) (Lit ''```'')) (b, t, g) =
        (b', rest, g(1 \<mapsto> before_first ''```'' t)) # sts"
  using lazy_then_lit_Some [of "''```''" t rest 1 b "[]" g] by simp

lemma fence_ms:
  assumes "tag \<in> set fence_tags" "prefix (''```'' @ tag @ ''\<newline>'') a"
  shows "ms False (seqs [Lit ''```'',
            Opt (alts [Lit ''typescript'', Lit ''ts'', Lit ''javascript'', Lit ''js'']),
            Lit ''\<newline>'', K]) (b, a, g) =
         ms False K (rev (''```'' @ tag @ ''\<newline>'') @ b, drop (length tag + 4) a, g)"
proof -
  from assms(2) obtain t where a: "a = ''```'' @ tag @ ''\<newline>'' @ t"
    by (auto simp: prefix_def)
  from assms(1) consider "tag = ''typescript''" | "tag = ''ts''" | "tag = ''javascript''"
    | "tag = ''js''" | "tag = []"
    by (auto simp: fence_tags_def)
  then show ?thesis
  proof cases
    case 1 then show ?thesis unfolding a by (simp add: lit_match_def)
  next
    case 2 then show ?thesis unfolding a by (simp add: lit_match_def)
  next
    case 3 then show ?thesis unfolding a by (simp add: lit_match_def)
  next
    case 4 then show ?thesis unfolding a by (simp add: lit_match_def)
  next
    case 5 then show ?thesis unfolding a by (simp add: lit_match_def)
  qed
qed

lemma nonempty_mem: "xs \<noteq> [] \<Longrightarrow> \<exists>x. x \<in> set xs"
  by (cases xs) auto

lemma fence_sound:
  assumes "ms False (seqs [Lit ''```'',
            Opt (alts [Lit ''typescript'', Lit ''ts'', Lit ''javascript'', Lit ''js'']),
            Lit ''\<newline>'', K]) (b, a, g) \<noteq> []"
  shows "\<exists>tag\<in>set fence_tags. prefix (''```'' @ tag @ ''\<newline>'') a"
proof -
  let ?A = "Alt (Lit ''typescript'') (Alt (Lit ''ts'') (Alt (Lit ''javascript'') (Lit ''js'')))"
  from nonempty_mem [OF assms] obtain st where "st \<in> set (ms False (seqs [Lit ''```'',
            Opt (alts [Lit ''typescript'', Lit ''ts'', Lit ''javascript'', Lit ''js'']),
            Lit ''\<newline>'', K]) (b, a, g))" ..
  then have "st \<in> set (ms False (Seq (Lit ''```'') (Seq (Opt ?A)
      (Seq (Lit ''\<newline>'') K))) (b, a, g))"
    by (simp only: seqs.simps alts.simps)
  then obtain s1 s2 s3 where
    1: "s1 \<in> set (ms False (Lit ''```'') (b, a, g))" and
    2: "s2 \<in> set (ms False (Opt ?A) s1)" and
    3: "s3 \<in> set (ms False (Lit ''\<newline>'') s2)"
    by (blast dest!: seq_memD)
  obtain b1 a1 g1 where s1: "s1 = (b1, a1, g1)" by (cases s1)
  obtain b2 a2 g2 where s2: "s2 = (b2, a2, g2)" by (cases s2)
  obtain b3 a3 g3 where s3: "s3 = (b3, a3, g3)" by (cases s3)
  from lit_suffix [OF 1 [unfolded s1]] have e1: "a = ''```'' @ a1" by blast
  from lit_suffix [OF 3 [unfolded s2 s3]] have e3: "a2 = ''\<newline>'' @ a3" by blast
  from 2 have "s2 = s1 \<or> s2 \<in> set (ms False (Lit ''typescript'') s1) \<or>
      s2 \<in> set (ms False (Lit ''ts'') s1) \<or> s2 \<in> set (ms False (Lit ''javascript'') s1) \<or>
      s2 \<in> set (ms False (Lit ''js'') s1)"
    by (simp only: ms.simps set_append) auto
  then have "\<exists>tag\<in>set fence_tags. a1 = tag @ a2"
    unfolding s1 s2 fence_tags_def
    by (elim disjE) (simp, (drule lit_suffix, simp)+)
  then obtain tag where "tag \<in> set fence_tags" "a1 = tag @ a2" by blast
  with e1 e3 have "tag \<in> set fence_tags \<and> prefix (''```'' @ tag @ ''\<newline>'') a"
    by (simp add: prefix_def)
  then show ?thesis by blast
qed

lemma open_fence_None:
  "open_fence a = None \<Longrightarrow> \<forall>tag\<in>set fence_tags. \<not> prefix (''```'' @ tag @ ''\<newline>'') a"
  by (auto simp: open_fence_def filter_empty_conv split: list.splits)

lemma open_fence_Some:
  assumes "open_fence a = Some t"
  shows "\<exists>tag\<in>set fence_tags. prefix (''```'' @ tag @ ''\<newline>'') a \<and> t = drop (length tag + 4) a"
proof -
  from assms obtain tag tags where
    f: "filter (\<lambda>tag. prefix (''```'' @ tag @ ''\<newline>'') a) fence_tags = tag # tags"
    and t: "t = drop (length tag + 4) a"
    by (auto simp: open_fence_def split: list.splits)
  from f have "tag \<in> set (filter (\<lambda>tag. prefix (''```'' @ tag @ ''\<newline>'') a) fence_tags)"
    by simp
  then have "tag \<in> set fence_tags \<and> prefix (''```'' @ tag @ ''\<newline>'') a"
    by simp
  with t show ?thesis by blast
qed

lemma re_code_blocks_alt:
  "re_code_blocks = seqs [Lit ''```'',
     Opt (alts [Lit ''typescript'', Lit ''ts'', Lit ''javascript'', Lit ''js'']),
     Lit ''\<newline>'', Seq (Grp 1 (LazyStar CAny)) (Lit ''```'')]"
  by (simp add: re_code_blocks_def)

lemma code_block_no_fence:
  assumes "open_fence a = None"
  shows "ms False re_code_blocks (b, a, g) = []"
proof (rule ccontr)
  assume "ms False re_code_blocks (b, a, g) \<noteq> []"
  then have "\<exists>tag\<in>set fence_tags. prefix (''```'' @ tag @ ''\<newline>'') a"
    unfolding re_code_blocks_alt by (rule fence_sound)
  with open_fence_None [OF assms] show False by blast
qed

lemma code_block_unclosed:
  assumes "open_fence a = Some t" "after_first ''```'' t = None"
  shows "ms False re_code_blocks (b, a, g) = []"
proof -
  from open_fence_Some [OF assms(1)] obtain tag where
    tag: "tag \<in> set fence_tags" "prefix (''```'' @ tag @ ''\<newline>'') a" and t: "t = drop (length tag + 4) a"
    by blast
  show ?thesis
    unfolding re_code_blocks_alt fence_ms [OF tag] t [symmetric]
    using assms(2) by (rule body_None)
qed

lemma code_block_closed:
  assumes "open_fence a = Some t" "after_first ''```'' t = Some rest"
  shows "\<exists>b' sts. ms False re_code_blocks (b, a, g) =
           (b', rest, g(1 \<mapsto> before_first ''```'' t)) # sts"
proof -
  from open_fence_Some [OF assms(1)] obtain tag where
    tag: "tag \<in> set fence_tags" "prefix (''```'' @ tag @ ''\<newline>'') a" and t: "t = drop (length tag + 4) a"
    by blast
  show ?thesis
    unfolding re_code_blocks_alt fence_ms [OF tag] t [symmetric]
    using assms(2) by (rule body_Some)
qed


lemma after_first_length: "after_first w s = Some r \<Longrightarrow> length r \<le> length s"
  by (induction s) (auto split: if_splits)

lemma open_fence_Nil: "open_fence [] = None"
  by (simp add: open_fence_def fence_tags_def)

lemma findall_code_blocks:
  "map (\<lambda>m. case group 1 m of None \<Rightarrow> [] | Some t \<Rightarrow> t) (findall_from False re_code_blocks b a)
     = fenced_blocks_spec a"
proof (induction a arbitrary: b rule: fenced_blocks_spec.induct)
  case 1
  have "ms False re_code_blocks (b, [], Map.empty) = []"
    using open_fence_Nil by (rule code_block_no_fence)
  then show ?case
    by (subst findall_from.simps) simp
next
  case (2 x xs)
  show ?case
  proof (cases "open_fence (x # xs)")
    case None
    then have "ms False re_code_blocks (b, x # xs, Map.empty) = []"
      by (rule code_block_no_fence)
    with None "2.IH"(1) [OF None, of "x # b"] show ?thesis
      by (subst findall_from.simps) simp
  next
    case (Some t)
    show ?thesis
    proof (cases "after_first ''```'' t")
      case None
      with Some have "ms False re_code_blocks (b, x # xs, Map.empty) = []"
        by (rule code_block_unclosed)
      with Some None "2.IH"(2) [OF Some None, of "x # b"] show ?thesis
        by (subst findall_from.simps) simp
    next
      case (Some rest)
      note t = \<open>open_fence (x # xs) = Some t\<close>
      from code_block_closed [OF t Some] obtain b' sts where
        m: "ms False re_code_blocks (b, x # xs, Map.empty) =
              (b', rest, [1 \<mapsto> before_first ''```'' t]) # sts" by blast
      from open_fence_Some [OF t] obtain tag where "tag \<in> set fence_tags"
        and td: "t = drop (length tag + 4) (x # xs)" by blast
      from td have "length t < length (x # xs)" by simp
      with after_first_length [OF Some] have l: "length rest < length (x # xs)" by simp
      from t Some m l "2.IH"(3) [OF t Some, of b'] show ?thesis
        by (subst findall_from.simps) simp
    qed
  qed
qed

lemma re_findall_code_blocks: "re_findall False re_code_blocks s = fenced_blocks_spec s"
  unfolding re_findall_def by (rule findall_code_blocks)

lemma extract_code_eq: "extract_code stdout = extract_code_spec stdout"
  unfolding extract_code_def extract_code_spec_def re_findall_code_blocks Let_def by simp

lemma reasoning_ms_None:
  "\<not> prefix ''## Reasoning\<newline>'' a \<Longrightarrow> ms False re_reasoning (b, a, g) = []"
  by (simp add: re_reasoning_def lit_match_def)

lemma reasoning_ms_Some:
  assumes "prefix ''## Reasoning\<newline>'' a"
  shows "\<exists>b' a' sts. ms False re_reasoning (b, a, g) =
           (b', a', g(1 \<mapsto> lazy_cut (drop (length ''## Reasoning\<newline>'') a))) # sts"
proof -
  let ?H = "''## Reasoning\<newline>''"
  let ?K = "Look (Alt (Lit ''##'') Eot)"
  have "ms False re_reasoning (b, a, g) =
      ms False (Seq (Grp 1 (LazyStar CAny)) ?K) (rev (take (length ?H) a) @ b, drop (length ?H) a, g)"
    using assms by (simp add: re_reasoning_def lit_match_def)
  also have "\<dots> = concat (map (ms False ?K)
      (map (close_group 1 (rev (take (length ?H) a) @ b))
        (lazy_star False CAny (rev [] @ rev (take (length ?H) a) @ b, drop (length ?H) a, g))))"
    by simp
  finally show ?thesis
    using lazy_then_look [of 1 "rev (take (length ?H) a) @ b" "[]" "drop (length ?H) a" g]
    by simp
qed

lemma search_reasoning_None:
  "after_first ''## Reasoning\<newline>'' s = None \<Longrightarrow> search_from False re_reasoning b s = None"
proof (induction s arbitrary: b)
  case Nil
  then show ?case by (simp add: reasoning_ms_None)
next
  case (Cons x s)
  then have "\<not> prefix ''## Reasoning\<newline>'' (x # s)" "after_first ''## Reasoning\<newline>'' s = None"
    by (simp_all del: Cons_prefix_Cons split: if_splits)
  with Cons.IH [of "x # b"] show ?case
    by (simp add: reasoning_ms_None del: Cons_prefix_Cons)
qed

lemma search_reasoning_Some:
  "after_first ''## Reasoning\<newline>'' s = Some t \<Longrightarrow>
     \<exists>m. search_from False re_reasoning b s = Some m \<and> group 1 m = Some (lazy_cut t)"
proof (induction s arbitrary: b)
  case Nil
  then show ?case by simp
next
  case (Cons x s)
  show ?case
  proof (cases "prefix ''## Reasoning\<newline>'' (x # s)")
    case True
    with Cons.prems have t: "t = drop (length ''## Reasoning\<newline>'') (x # s)"
      by (simp del: Cons_prefix_Cons)
    from reasoning_ms_Some [OF True, of b Map.empty] obtain b' a' sts where
      "ms False re_reasoning (b, x # s, Map.empty) = (b', a', [1 \<mapsto> lazy_cut t]) # sts"
      unfolding t by blast
    then show ?thesis by simp
  next
    case False
    with Cons.prems have "after_first ''## Reasoning\<newline>'' s = Some t"
      by (simp del: Cons_prefix_Cons)
    from Cons.IH [OF this, of "x # b"] reasoning_ms_None [OF False, of b Map.empty]
    show ?thesis by simp
  qed
qed

lemma cut_or_newline:
  "before_first ''##'' t = lazy_cut t \<or> before_first ''##'' t = lazy_cut t @ ''\<newline>''"
  by (induction t) auto

lemma strip_newline: "strip (u @ ''\<newline>'') = strip u"
proof (cases "\<forall>c\<in>set u. isspace c")
  case True
  then have "strip u = []" by (simp add: strip_Nil_iff)
  moreover from True have "strip (u @ ''\<newline>'') = []"
    by (simp add: strip_Nil_iff isspace_def)
  ultimately show ?thesis by simp
next
  case False
  then have "dropWhile isspace (u @ ''\<newline>'') = dropWhile isspace u @ ''\<newline>''"
    by (auto simp: dropWhile_append)
  then show ?thesis
    by (simp add: strip_def isspace_def)
qed

lemma extract_reasoning_eq: "extract_reasoning stdout = reasoning_section_spec stdout"
proof (cases "after_first ''## Reasoning\<newline>'' stdout")
  case None
  then show ?thesis
    by (simp add: extract_reasoning_def reasoning_section_spec_def re_search_def
        search_reasoning_None)
next
  case (Some t)
  from search_reasoning_Some [OF Some, of "[]"] obtain m where
    "re_search False re_reasoning stdout = Some m" "group 1 m = Some (lazy_cut t)"
    by (auto simp: re_search_def)
  then have "extract_reasoning stdout = strip (lazy_cut t)"
    by (simp add: extract_reasoning_def)
  also have "\<dots> = strip (before_first ''##'' t)"
    using cut_or_newline [of t] by (auto simp: strip_newline)
  finally show ?thesis using Some
    by (simp add: reasoning_section_spec_def)
qed


text \<open>
  Claim C6, as stated: for every raw response each adapter variant's primary output is
  the concatenation of the contents of the fenced code blocks when the response holds
  one, and the raw response otherwise. It fails for the documentation variant: on a
  response that is one fenced block with the content "abc" and a newline, the
  primary output is the whole response, fences included.
\<close>

theorem C6_doc_adapter_raw_counterexample:
  "re_findall False re_code_blocks ''```\<newline>abc\<newline>```'' = [''abc\<newline>''] \<and>
   TestDocAdapter_forward (\<lambda>args cwd t. Inr ''```\<newline>abc\<newline>```'')
       \<lparr>gemini_binary = ''gemini'', repo_root = ''.'', timeout_seconds = 300,
         instructions = ''Write tests.'', demos = []\<rparr> ''story'' ''Jest''
     = Inr \<lparr>code_output = Some ''```\<newline>abc\<newline>```'', doc_output = Some ''```\<newline>abc\<newline>```'',
            reasoning = []\<rparr> \<and>
   ''```\<newline>abc\<newline>```'' \<noteq> concat [''abc\<newline>'']"
proof -
  have 1: "re_findall False re_code_blocks ''```\<newline>abc\<newline>```'' = [''abc\<newline>'']"
    unfolding re_findall_code_blocks
    by (simp add: open_fence_def fence_tags_def)
  have 2: "extract_reasoning ''```\<newline>abc\<newline>```'' = []"
    unfolding extract_reasoning_eq
    by (simp add: reasoning_section_spec_def)
  from 1 2 show ?thesis
    by (simp add: TestDocAdapter_forward_def)
qed

text \<open>
  Claim C6, amended: for every raw response string, the code variant's primary output is
  the contents of the fenced code blocks joined by a blank line when the response holds
  at least one fenced block (an opening of three backticks, optionally followed by
  typescript, ts, javascript or js, then a newline, closed by the next three
  backticks), and the raw response verbatim otherwise; the documentation variant's
  primary output is the raw response verbatim in every case; in both variants the
  reasoning field is the text between the first \<open>## Reasoning\<close> header line and the next
  \<open>##\<close> (or the end of the response) with the whitespace at both ends removed, and the
  empty string when the response has no such header line.
\<close>

theorem C6_post_processing:
  "(run [gemini_binary a, ''-p'', ts_prepare_prompt a story_context tech_stack]
        (repo_root a) (timeout_seconds a) = Inr stdout \<longrightarrow>
      TypeScriptCodeAdapter_forward run a story_context tech_stack =
        Inr \<lparr>code_output = Some (if fenced_blocks_spec stdout = [] then stdout
                                  else join ''\<newline>\<newline>'' (fenced_blocks_spec stdout)),
             doc_output = None,
             reasoning = reasoning_section_spec stdout\<rparr>) \<and>
   (run [gemini_binary a, ''-p'', doc_prepare_prompt a story_context]
        (repo_root a) (timeout_seconds a) = Inr stdout \<longrightarrow>
      TestDocAdapter_forward run a story_context tech_stack =
        Inr \<lparr>code_output = Some stdout, doc_output = Some stdout,
             reasoning = reasoning_section_spec stdout\<rparr>)"
  by (simp add: TypeScriptCodeAdapter_forward_def TestDocAdapter_forward_def Let_def
      extract_code_eq extract_code_spec_def extract_reasoning_eq)

theorem C6_post_processing_witness:
  "TypeScriptCodeAdapter_forward
       (\<lambda>args cwd t. Inr ''Code:\<newline>```ts\<newline>a\<newline>```x```\<newline>b```\<newline>## Reasoning\<newline> easy \<newline>## End'')
       \<lparr>gemini_binary = ''gemini'', repo_root = ''.'', timeout_seconds = 300,
         instructions = ''Write code.'', demos = []\<rparr> ''story'' ''TypeScript''
     = Inr \<lparr>code_output = Some ''a\<newline>\<newline>\<newline>b'', doc_output = None, reasoning = ''easy''\<rparr> \<and>
   TestDocAdapter_forward
       (\<lambda>args cwd t. Inr ''Code:\<newline>```ts\<newline>a\<newline>```x```\<newline>b```\<newline>## Reasoning\<newline> easy \<newline>## End'')
       \<lparr>gemini_binary = ''gemini'', repo_root = ''.'', timeout_seconds = 300,
         instructions = ''Write tests.'', demos = []\<rparr> ''story'' ''Jest''
     = Inr \<lparr>code_output = Some ''Code:\<newline>```ts\<newline>a\<newline>```x```\<newline>b```\<newline>## Reasoning\<newline> easy \<newline>## End'',
            doc_output = Some ''Code:\<newline>```ts\<newline>a\<newline>```x```\<newline>b```\<newline>## Reasoning\<newline> easy \<newline>## End'',
            reasoning = ''easy''\<rparr>"
proof -
  let ?out = "''Code:\<newline>```ts\<newline>a\<newline>```x```\<newline>b```\<newline>## Reasoning\<newline> easy \<newline>## End''"
  let ?run = "\<lambda>(args :: string list) (cwd :: string) (t :: nat). Inr ?out :: py_exception + string"
  let ?a = "\<lparr>gemini_binary = ''gemini'', repo_root = ''.'', timeout_seconds = 300,
         instructions = ''Write code.'', demos = []\<rparr>"
  let ?a' = "\<lparr>gemini_binary = ''gemini'', repo_root = ''.'', timeout_seconds = 300,
         instructions = ''Write tests.'', demos = []\<rparr>"
  have b: "fenced_blocks_spec ?out = [''a\<newline>'', ''b'']"
    by (simp add: open_fence_def fence_tags_def)
  have r: "reasoning_section_spec ?out = ''easy''"
    by (simp add: reasoning_section_spec_def strip_def isspace_def)
  from C6_post_processing [of ?run ?a "''story''" "''TypeScript''" ?out]
       C6_post_processing [of ?run ?a' "''story''" "''Jest''" ?out]
  show ?thesis
    unfolding b r by simp
qed

end
